theory Spec2Isabelle
  imports Main "HOL-Library.Signed_Division"
begin

section \<open>Level policy\<close>

text \<open>
  \<^verbatim>\<open>type LogLevel int8\<close> with \<^verbatim>\<open>DebugLevel LogLevel = iota - 1\<close>: the seven constants
  are the integers -1 .. 5. A threshold is any value of the type, so the model keeps the
  integer and its order instead of a seven-element enumeration.
\<close>

type_synonym LogLevel = int

definition DebugLevel :: LogLevel where "DebugLevel = - 1"
definition InfoLevel :: LogLevel where "InfoLevel = 0"
definition WarnLevel :: LogLevel where "WarnLevel = 1"
definition ErrorLevel :: LogLevel where "ErrorLevel = 2"
definition DPanicLevel :: LogLevel where "DPanicLevel = 3"
definition PanicLevel :: LogLevel where "PanicLevel = 4"
definition FatalLevel :: LogLevel where "FatalLevel = 5"

text \<open>
  \<^verbatim>\<open>strings.ToLower\<close> belongs to the Go standard library. Go strings are byte sequences,
  as \<^typ>\<open>string\<close> is. On a string of ASCII bytes only, the library lower-cases the
  bytes \<open>'A' .. 'Z'\<close> (\<^verbatim>\<open>c += 'a' - 'A'\<close>) and keeps the others; a string with a byte
  from \<open>0x80\<close> on goes through \<^verbatim>\<open>Map(unicode.ToLower, s)\<close>, which decodes the runes
  and maps each through the Unicode case tables (so that U+0130 becomes \<open>i\<close>). Those
  tables are not part of this repository: \<open>mapRunes\<close> stands for that second path and is
  an argument of \<open>ToLower\<close> and of \<open>ParseLevel\<close>.
\<close>

definition lower_byte :: "char \<Rightarrow> char" where
  "lower_byte c =
     (if (of_char (CHR ''A'') :: nat) \<le> of_char c \<and> (of_char c :: nat) \<le> of_char (CHR ''Z'')
      then char_of ((of_char c :: nat) + (of_char (CHR ''a'') - of_char (CHR ''A'')))
      else c)"

definition isASCII :: "string \<Rightarrow> bool" where
  "isASCII s = list_all (\<lambda>c. (of_char c :: nat) < 128) s"

definition ToLower :: "(string \<Rightarrow> string) \<Rightarrow> string \<Rightarrow> string" where
  "ToLower mapRunes s = (if isASCII s then map lower_byte s else mapRunes s)"

definition ParseLevel :: "(string \<Rightarrow> string) \<Rightarrow> string \<Rightarrow> LogLevel" where
  "ParseLevel mapRunes level =
     (let l = ToLower mapRunes level in
      if l = ''debug'' then DebugLevel
      else if l = ''info'' then InfoLevel
      else if l = ''warn'' \<or> l = ''warning'' then WarnLevel
      else if l = ''error'' then ErrorLevel
      else if l = ''dpanic'' then DPanicLevel
      else if l = ''panic'' then PanicLevel
      else if l = ''fatal'' then FatalLevel
      else InfoLevel)"

text \<open>
  A stand-in for the Unicode path, right on the strings it is run on below: the two
  bytes of U+0130 become \<open>i\<close>, the ASCII capitals are lower-cased, every other byte is
  kept.
\<close>

fun mapRunes_sample :: "string \<Rightarrow> string" where
  "mapRunes_sample [] = []"
| "mapRunes_sample [c] = [lower_byte c]"
| "mapRunes_sample (c # d # s) =
     (if c = CHR 0xC4 \<and> d = CHR 0xB0 then CHR ''i'' # mapRunes_sample s
      else lower_byte c # mapRunes_sample (d # s))"

text \<open>
  The level policy as a table, to state what \<open>ParseLevel\<close> computes: the recognised
  names with their severity; a name that is not in the table stands for Info.
\<close>

definition level_table :: "(string \<times> LogLevel) list" where
  "level_table =
     [(''debug'', DebugLevel), (''info'', InfoLevel), (''warn'', WarnLevel),
      (''warning'', WarnLevel), (''error'', ErrorLevel), (''dpanic'', DPanicLevel),
      (''panic'', PanicLevel), (''fatal'', FatalLevel)]"

section \<open>Field values and the encoded line\<close>

text \<open>
  A field is an \<^verbatim>\<open>interface{}\<close> value; \<open>val\<close> has one constructor for each case of the
  type switch in \<^verbatim>\<open>appendValue\<close>. For \<open>VFloat64\<close>, \<open>VError\<close> and \<open>VOther\<close> the
  carried string is the text that \<^verbatim>\<open>strconv.FormatFloat(v, 'f', -1, 64)\<close>,
  \<^verbatim>\<open>v.Error()\<close> and \<^verbatim>\<open>fmt.Sprintf("%v", v)\<close> return for the value. \<open>VNil\<close> is the nil
  interface, which \<^verbatim>\<open>make\<close> stores in a fresh slice.
\<close>

datatype val =
    VNil
  | VString string
  | VInt int
  | VInt64 int
  | VUint nat
  | VUint64 nat
  | VFloat64 string
  | VBool bool
  | VError string
  | VOther string

fun FormatUint :: "nat \<Rightarrow> string" where
  "FormatUint n =
     (if n < 10 then [''0123456789'' ! n]
      else FormatUint (n div 10) @ [''0123456789'' ! (n mod 10)])"

declare FormatUint.simps [simp del]

definition FormatInt :: "int \<Rightarrow> string" where
  "FormatInt i = (if i < 0 then ''-'' @ FormatUint (nat (- i)) else FormatUint (nat i))"

definition FormatBool :: "bool \<Rightarrow> string" where
  "FormatBool b = (if b then ''true'' else ''false'')"

fun appendValue :: "string \<Rightarrow> val \<Rightarrow> string" where
  "appendValue sb (VString s) = sb @ s"
| "appendValue sb (VInt i) = sb @ FormatInt i"
| "appendValue sb (VInt64 i) = sb @ FormatInt i"
| "appendValue sb (VUint n) = sb @ FormatUint n"
| "appendValue sb (VUint64 n) = sb @ FormatUint n"
| "appendValue sb (VFloat64 t) = sb @ t"
| "appendValue sb (VBool b) = sb @ FormatBool b"
| "appendValue sb (VError t) = sb @ t"
| "appendValue sb (VOther t) = sb @ t"
| "appendValue sb VNil = sb @ ''<nil>''"

text \<open>
  The loop \<^verbatim>\<open>for i := 0; i < len(allFields); i += 2\<close> of \<^verbatim>\<open>log\<close>, on the elements from
  index \<open>i\<close> on: a blank first, then the key when it is a string, \<open>=\<close>, and the value
  when \<open>i+1\<close> is still inside the list. \<^verbatim>\<open>continue\<close> moves on by two elements as well.
\<close>

fun log_fields :: "string \<Rightarrow> val list \<Rightarrow> string" where
  "log_fields sb [] = sb"
| "log_fields sb (VString key # rest) =
     (case rest of
        [] \<Rightarrow> sb @ '' '' @ key @ ''=''
      | v # rest' \<Rightarrow> log_fields (appendValue (sb @ '' '' @ key @ ''='') v) rest')"
| "log_fields sb (k # rest) = log_fields (sb @ '' '') (drop 1 rest)"

definition newline :: string where
  "newline = [CHR 0x0A]"

text \<open>
  The string that \<^verbatim>\<open>log\<close> builds; \<open>now\<close> is \<^verbatim>\<open>time.Now().Format(time.RFC3339Nano)\<close>.
\<close>

definition log_line :: "string \<Rightarrow> string \<Rightarrow> string \<Rightarrow> val list \<Rightarrow> string" where
  "log_line now level msg allFields =
     (let sb = now @ '' '' @ level @ '' '' @ msg;
          sb' = (if length allFields > 0 then log_fields sb allFields else sb)
      in sb' @ newline)"

section \<open>Slices in an explicit store\<close>

text \<open>
  \<^verbatim>\<open>contextFields []interface{}\<close> is a slice: a reference to a backing array, a length
  and a capacity. \<^verbatim>\<open>append\<close> writes into the backing array when the capacity allows
  it, so what a logger's field list holds depends on who else writes to that array. The
  store keeps every backing array by address; address 0 is the nil slice's.
\<close>

record slice =
  s_arr :: nat
  s_len :: nat
  s_cap :: nat

definition nil_slice :: slice where
  "nil_slice = \<lparr>s_arr = 0, s_len = 0, s_cap = 0\<rparr>"

section \<open>The shared state\<close>

datatype pc = Selecting | Draining | Returned

text \<open>
  The goroutine \<^verbatim>\<open>run\<close> of one logger: its context, its local \<^verbatim>\<open>batch\<close> buffer and
  where it stands: in the outer \<^verbatim>\<open>select\<close>, in the inner receive-until-empty loop, or
  returned.
\<close>

record worker =
  w_ctx :: nat
  batch :: string
  w_pc :: pc

text \<open>
  Everything the logging code shares: the backing arrays, the channels (contents in
  arrival order, and capacity), the contexts' cancellation, the workers, and the two
  output streams. \<open>growCap\<close> is the capacity the runtime picks when \<^verbatim>\<open>append\<close> has to
  allocate (from the old capacity and the length needed); the language only promises that
  the new array is large enough.
\<close>

record world =
  arrays :: "nat \<Rightarrow> nat \<Rightarrow> val"
  nextArray :: nat
  growCap :: "nat \<Rightarrow> nat \<Rightarrow> nat"
  chans :: "nat \<Rightarrow> string list"
  chanCap :: "nat \<Rightarrow> nat"
  nextChan :: nat
  ctxDone :: "nat \<Rightarrow> bool"
  workers :: "nat \<Rightarrow> worker"
  stdout :: string
  stderr :: string

definition elems :: "world \<Rightarrow> slice \<Rightarrow> val list" where
  "elems w s = map (arrays w (s_arr s)) [0..<s_len s]"

definition write_at :: "(nat \<Rightarrow> val) \<Rightarrow> nat \<Rightarrow> val list \<Rightarrow> nat \<Rightarrow> val" where
  "write_at a i xs = (\<lambda>j. if i \<le> j \<and> j < i + length xs then xs ! (j - i) else a j)"

definition make_slice :: "nat \<Rightarrow> world \<Rightarrow> slice \<times> world" where
  "make_slice n w =
     (\<lparr>s_arr = nextArray w, s_len = n, s_cap = n\<rparr>,
      w\<lparr>arrays := (arrays w)(nextArray w := (\<lambda>_. VNil)), nextArray := nextArray w + 1\<rparr>)"

definition copy_slice :: "slice \<Rightarrow> slice \<Rightarrow> world \<Rightarrow> world" where
  "copy_slice dst src w =
     w\<lparr>arrays := (arrays w)(s_arr dst :=
          write_at (arrays w (s_arr dst)) 0 (take (min (s_len dst) (s_len src)) (elems w src)))\<rparr>"

definition append_slice :: "slice \<Rightarrow> val list \<Rightarrow> world \<Rightarrow> slice \<times> world" where
  "append_slice s xs w =
     (let n = s_len s + length xs in
      if n \<le> s_cap s
      then (s\<lparr>s_len := n\<rparr>,
            w\<lparr>arrays := (arrays w)(s_arr s := write_at (arrays w (s_arr s)) (s_len s) xs)\<rparr>)
      else (\<lparr>s_arr = nextArray w, s_len = n, s_cap = max n (growCap w (s_cap s) n)\<rparr>,
            w\<lparr>arrays := (arrays w)(nextArray w :=
                  write_at (write_at (\<lambda>_. VNil) 0 (elems w s)) (s_len s) xs),
              nextArray := nextArray w + 1\<rparr>))"

section \<open>The logger\<close>

record Config =
  Level :: LogLevel
  IsProduction :: bool

text \<open>
  \<^verbatim>\<open>logChan\<close> and \<^verbatim>\<open>writer\<close> are references (a channel, a \<^verbatim>\<open>*log.Logger\<close> on standard
  output); the record holds their addresses. A logger value is never written after it is
  built, so the struct behind the pointer is the record itself. The wait group is left
  out: \<^verbatim>\<open>Close\<close> returns when the worker has returned.
\<close>

record asyncLogger =
  cfg :: Config
  logChan :: nat
  writer :: nat
  bufferSize :: int
  flushInterval :: int
  contextFields :: slice

definition defaultBufferSize :: int where
  "defaultBufferSize = 4096"

definition defaultFlushInterval :: int where
  "defaultFlushInterval = 100 * 1000000"

datatype Option = WithBufferSize int | WithFlushInterval int

fun apply_option :: "asyncLogger \<Rightarrow> Option \<Rightarrow> asyncLogger" where
  "apply_option l (WithBufferSize sz) = (if sz > 0 then l\<lparr>bufferSize := sz\<rparr> else l)"
| "apply_option l (WithFlushInterval interval) =
     (if interval > 0 then l\<lparr>flushInterval := interval\<rparr> else l)"

definition maxInt :: int where
  "maxInt = 2 ^ 63 - 1"

datatype outcome = Returns | Panics string | Exits int

text \<open>
  \<^verbatim>\<open>NewAsyncLogger\<close>: defaults, the options in order, the channel of capacity
  \<^verbatim>\<open>l.bufferSize+1\<close>, and the worker started on \<open>ctx\<close>. \<^verbatim>\<open>make\<close> panics when the size
  is negative, which is what \<open>bufferSize + 1\<close> is once it passes the largest \<^verbatim>\<open>int\<close>.
\<close>

definition NewAsyncLogger ::
  "nat \<Rightarrow> Config \<Rightarrow> Option list \<Rightarrow> world \<Rightarrow> string + (asyncLogger \<times> world)" where
  "NewAsyncLogger ctx c opts w =
     (let l0 = \<lparr>cfg = c, logChan = 0, writer = nextChan w, bufferSize = defaultBufferSize,
                flushInterval = defaultFlushInterval, contextFields = nil_slice\<rparr>;
          l1 = foldl apply_option l0 opts
      in if bufferSize l1 + 1 > maxInt then Inl ''makechan: size out of range''
         else Inr (l1\<lparr>logChan := nextChan w\<rparr>,
                w\<lparr>chans := (chans w)(nextChan w := []),
                  chanCap := (chanCap w)(nextChan w := nat (bufferSize l1 + 1)),
                  workers := (workers w)(nextChan w := \<lparr>w_ctx = ctx, batch = [], w_pc = Selecting\<rparr>),
                  nextChan := nextChan w + 1\<rparr>))"

text \<open>
  The \<^verbatim>\<open>select\<close> at the end of \<^verbatim>\<open>log\<close>: the send when the channel has room, else the
  \<^verbatim>\<open>default\<close> branch with its line on standard error.
\<close>

definition dropped_warning :: "string \<Rightarrow> string" where
  "dropped_warning line =
     ''WARNING: Logger channel is full. Log message dropped: '' @ line @ newline"

definition enqueue :: "nat \<Rightarrow> string \<Rightarrow> world \<Rightarrow> world" where
  "enqueue c line w =
     (if length (chans w c) < chanCap w c
      then w\<lparr>chans := (chans w)(c := chans w c @ [line])\<rparr>
      else w\<lparr>stderr := stderr w @ dropped_warning line\<rparr>)"

definition log :: "asyncLogger \<Rightarrow> string \<Rightarrow> string \<Rightarrow> string \<Rightarrow> val list \<Rightarrow> world \<Rightarrow> world" where
  "log l now level msg flds w =
     (let (allFields, w') = append_slice (contextFields l) flds w
      in enqueue (logChan l) (log_line now level msg (elems w' allFields)) w')"

definition Debug :: "asyncLogger \<Rightarrow> string \<Rightarrow> string \<Rightarrow> val list \<Rightarrow> world \<Rightarrow> outcome \<times> world" where
  "Debug l now msg flds w =
     (if Level (cfg l) \<le> DebugLevel then (Returns, log l now ''DEBUG'' msg flds w)
      else (Returns, w))"

definition Info :: "asyncLogger \<Rightarrow> string \<Rightarrow> string \<Rightarrow> val list \<Rightarrow> world \<Rightarrow> outcome \<times> world" where
  "Info l now msg flds w =
     (if Level (cfg l) \<le> InfoLevel then (Returns, log l now ''INFO'' msg flds w)
      else (Returns, w))"

definition Warn :: "asyncLogger \<Rightarrow> string \<Rightarrow> string \<Rightarrow> val list \<Rightarrow> world \<Rightarrow> outcome \<times> world" where
  "Warn l now msg flds w =
     (if Level (cfg l) \<le> WarnLevel then (Returns, log l now ''WARN'' msg flds w)
      else (Returns, w))"

definition Error :: "asyncLogger \<Rightarrow> string \<Rightarrow> string \<Rightarrow> val list \<Rightarrow> world \<Rightarrow> outcome \<times> world" where
  "Error l now msg flds w =
     (if Level (cfg l) \<le> ErrorLevel then (Returns, log l now ''ERROR'' msg flds w)
      else (Returns, w))"

definition DPanic :: "asyncLogger \<Rightarrow> string \<Rightarrow> string \<Rightarrow> val list \<Rightarrow> world \<Rightarrow> outcome \<times> world" where
  "DPanic l now msg flds w =
     (if Level (cfg l) \<le> DPanicLevel
      then (if \<not> IsProduction (cfg l) then Panics msg else Returns,
            log l now ''DPANIC'' msg flds w)
      else (Returns, w))"

definition Panic :: "asyncLogger \<Rightarrow> string \<Rightarrow> string \<Rightarrow> val list \<Rightarrow> world \<Rightarrow> outcome \<times> world" where
  "Panic l now msg flds w =
     (if Level (cfg l) \<le> PanicLevel then (Panics msg, log l now ''PANIC'' msg flds w)
      else (Returns, w))"

definition Fatal :: "asyncLogger \<Rightarrow> string \<Rightarrow> string \<Rightarrow> val list \<Rightarrow> world \<Rightarrow> outcome \<times> world" where
  "Fatal l now msg flds w =
     (if Level (cfg l) \<le> FatalLevel then (Exits 1, log l now ''FATAL'' msg flds w)
      else (Returns, w))"

text \<open>
  \<^verbatim>\<open>With\<close>: the struct is copied, a slice of the parent's length is made, the parent's
  fields are copied into it and the new fields appended.
\<close>

definition With :: "asyncLogger \<Rightarrow> val list \<Rightarrow> world \<Rightarrow> asyncLogger \<times> world" where
  "With l flds w =
     (let (s0, w1) = make_slice (s_len (contextFields l)) w;
          w2 = copy_slice s0 (contextFields l) w1;
          (s1, w3) = append_slice s0 flds w2
      in (l\<lparr>contextFields := s1\<rparr>, w3))"

section \<open>The worker\<close>

text \<open>
  \<^verbatim>\<open>flush\<close> writes the batch to the sink when it is not empty and resets it. The result
  of \<^verbatim>\<open>Write\<close> is discarded by the code; the sink here takes every byte.
\<close>

definition flush :: "nat \<Rightarrow> world \<Rightarrow> world" where
  "flush c w =
     (if length (batch (workers w c)) > 0
      then w\<lparr>stdout := stdout w @ batch (workers w c),
             workers := (workers w)(c := (workers w c)\<lparr>batch := []\<rparr>)\<rparr>
      else w)"

definition set_pc :: "nat \<Rightarrow> pc \<Rightarrow> world \<Rightarrow> world" where
  "set_pc c p w = w\<lparr>workers := (workers w)(c := (workers w c)\<lparr>w_pc := p\<rparr>)\<rparr>"

definition receive :: "nat \<Rightarrow> string \<Rightarrow> string list \<Rightarrow> world \<Rightarrow> world" where
  "receive c m rest w =
     w\<lparr>chans := (chans w)(c := rest),
       workers := (workers w)(c := (workers w c)\<lparr>batch := batch (workers w c) @ m\<rparr>)\<rparr>"

text \<open>
  A \<^verbatim>\<open>select\<close> takes one of its ready cases; which one is not determined. \<open>choice\<close> names
  the case the outer \<^verbatim>\<open>select\<close> of \<^verbatim>\<open>run\<close> is offered; a case that is not ready (the
  context not done, the channel empty) is not taken and the worker stays where it is.
  The channel is never closed by this program, so the receive always has \<^verbatim>\<open>ok\<close> true.
  One call of \<open>run_step\<close> is one pass through the outer \<^verbatim>\<open>select\<close>, or one pass through
  the inner one once the context is done: there a pending message is taken, and the
  \<^verbatim>\<open>default\<close> branch flushes and returns.
\<close>

datatype choice = CtxDone | Tick | Recv

definition run_step :: "asyncLogger \<Rightarrow> choice \<Rightarrow> world \<Rightarrow> world" where
  "run_step l ch w =
     (let c = logChan l in
      case w_pc (workers w c) of
        Returned \<Rightarrow> w
      | Draining \<Rightarrow>
          (case chans w c of
             m # rest \<Rightarrow> receive c m rest w
           | [] \<Rightarrow> set_pc c Returned (flush c w))
      | Selecting \<Rightarrow>
          (case ch of
             CtxDone \<Rightarrow> if ctxDone w (w_ctx (workers w c)) then set_pc c Draining w else w
           | Tick \<Rightarrow> flush c w
           | Recv \<Rightarrow>
               (case chans w c of
                  [] \<Rightarrow> w
                | m # rest \<Rightarrow>
                    (let w' = receive c m rest w
                     in if int (length (batch (workers w' c))) \<ge> bufferSize l
                        then flush c w' else w'))))"

fun run :: "asyncLogger \<Rightarrow> choice list \<Rightarrow> world \<Rightarrow> world" where
  "run l [] w = w"
| "run l (ch # chs) w = run l chs (run_step l ch w)"

definition cancel :: "nat \<Rightarrow> world \<Rightarrow> world" where
  "cancel ctx w = w\<lparr>ctxDone := (ctxDone w)(ctx := True)\<rparr>"

text \<open>
  What producers, the worker and the owner of the context can do to the shared state, one
  event at a time, in any interleaving.
\<close>

datatype event =
    ELog asyncLogger string string string "val list"
  | EWork asyncLogger choice
  | ECancel nat

fun step :: "event \<Rightarrow> world \<Rightarrow> world" where
  "step (ELog l now level msg flds) w = log l now level msg flds w"
| "step (EWork l ch) w = run_step l ch w"
| "step (ECancel ctx) w = cancel ctx w"

fun exec :: "event list \<Rightarrow> world \<Rightarrow> world" where
  "exec [] w = w"
| "exec (e # es) w = exec es (step e w)"

definition init_world :: "(nat \<Rightarrow> nat \<Rightarrow> nat) \<Rightarrow> world" where
  "init_world g =
     \<lparr>arrays = (\<lambda>_ _. VNil), nextArray = 1, growCap = g, chans = (\<lambda>_. []),
      chanCap = (\<lambda>_. 0), nextChan = 0, ctxDone = (\<lambda>_. False),
      workers = (\<lambda>_. \<lparr>w_ctx = 0, batch = [], w_pc = Returned\<rparr>), stdout = [], stderr = []\<rparr>"

section \<open>A small fixture\<close>

text \<open>
  A logger on channel 0 with no context fields, and a world whose channels hold one line
  each; used to run the definitions on concrete calls.
\<close>

definition example_logger :: "LogLevel \<Rightarrow> asyncLogger" where
  "example_logger t =
     \<lparr>cfg = \<lparr>Level = t, IsProduction = True\<rparr>, logChan = 0, writer = 0, bufferSize = 1,
      flushInterval = defaultFlushInterval, contextFields = nil_slice\<rparr>"

definition example_world :: world where
  "example_world = (init_world max)\<lparr>chanCap := (\<lambda>_. 1)\<rparr>"

section \<open>Calls through the Logger interface\<close>

text \<open>
  The seven leveled operations of the \<^verbatim>\<open>Logger\<close> interface, with the severity each
  one compares the threshold to and the level text it passes to \<^verbatim>\<open>log\<close>; \<open>call\<close>
  dispatches to the implementation on \<^verbatim>\<open>*asyncLogger\<close>.
\<close>

datatype leveled = MDebug | MInfo | MWarn | MError | MDPanic | MPanic | MFatal

fun severity :: "leveled \<Rightarrow> LogLevel" where
  "severity MDebug = DebugLevel"
| "severity MInfo = InfoLevel"
| "severity MWarn = WarnLevel"
| "severity MError = ErrorLevel"
| "severity MDPanic = DPanicLevel"
| "severity MPanic = PanicLevel"
| "severity MFatal = FatalLevel"

fun level_text :: "leveled \<Rightarrow> string" where
  "level_text MDebug = ''DEBUG''"
| "level_text MInfo = ''INFO''"
| "level_text MWarn = ''WARN''"
| "level_text MError = ''ERROR''"
| "level_text MDPanic = ''DPANIC''"
| "level_text MPanic = ''PANIC''"
| "level_text MFatal = ''FATAL''"

fun call :: "leveled \<Rightarrow> asyncLogger \<Rightarrow> string \<Rightarrow> string \<Rightarrow> val list \<Rightarrow> world \<Rightarrow> outcome \<times> world" where
  "call MDebug = Debug"
| "call MInfo = Info"
| "call MWarn = Warn"
| "call MError = Error"
| "call MDPanic = DPanic"
| "call MPanic = Panic"
| "call MFatal = Fatal"

text \<open>
  What a leveled call does after it has handed its record to \<^verbatim>\<open>log\<close>: \<open>DPanic\<close> panics
  with the message outside production mode, \<open>Panic\<close> panics, \<open>Fatal\<close> exits with status
  1, the others return.
\<close>

fun after_record :: "leveled \<Rightarrow> Config \<Rightarrow> string \<Rightarrow> outcome" where
  "after_record MDPanic c msg = (if \<not> IsProduction c then Panics msg else Returns)"
| "after_record MPanic c msg = Panics msg"
| "after_record MFatal c msg = Exits 1"
| "after_record m c msg = Returns"

text \<open>The type assertion \<^verbatim>\<open>allFields[i].(string)\<close> succeeds on a string and on nothing else.\<close>

fun is_string :: "val \<Rightarrow> bool" where
  "is_string (VString s) = True"
| "is_string v = False"

section \<open>Histories of one writer\<close>

text \<open>
  The lines that a history queues on channel \<open>c\<close>, in the order of the calls: a call of
  \<^verbatim>\<open>log\<close> on a logger of that channel contributes its line when the channel has room at
  that moment, and nothing when the line is dropped.
\<close>

fun accepted :: "nat \<Rightarrow> event list \<Rightarrow> world \<Rightarrow> string list" where
  "accepted c [] w = []"
| "accepted c (ELog l now level msg flds # es) w =
     (if logChan l = c \<and> length (chans w c) < chanCap w c
      then [log_line now level msg (elems w (contextFields l) @ flds)] else [])
     @ accepted c es (log l now level msg flds w)"
| "accepted c (e # es) w = accepted c es (step e w)"

text \<open>
  The events of the time before the context \<open>ctx\<close> is cancelled, for the writer built as
  \<open>l\<close>: calls of \<^verbatim>\<open>log\<close> by any logger, steps of the one goroutine \<^verbatim>\<open>l.run(ctx)\<close>, and
  cancellations of other contexts.
\<close>

fun before_cancel :: "nat \<Rightarrow> asyncLogger \<Rightarrow> event \<Rightarrow> bool" where
  "before_cancel ctx l (ELog l' now level msg flds) = True"
| "before_cancel ctx l (EWork l' ch) = (l' = l)"
| "before_cancel ctx l (ECancel ctx') = (ctx' \<noteq> ctx)"

text \<open>What the sink has or will get from channel \<open>c\<close>: written, batched, queued.\<close>

definition in_flight :: "nat \<Rightarrow> world \<Rightarrow> string" where
  "in_flight c w = stdout w @ batch (workers w c) @ concat (chans w c)"

section \<open>Loggers that share the store\<close>

text \<open>The loggers whose \<^verbatim>\<open>log\<close> calls a history holds, in order.\<close>

fun emitters :: "event list \<Rightarrow> asyncLogger list" where
  "emitters [] = []"
| "emitters (ELog l now level msg flds # es) = l # emitters es"
| "emitters (e # es) = emitters es"

text \<open>
  A logger \<open>e\<close> that was there when \<open>l\<close> is derived from, in the world \<open>w\<close>: its field
  slice lies in memory allocated in \<open>w\<close>, and if it is on the backing array of \<open>l\<close>'s
  slice it is at least as long (as \<open>l\<close> itself is), so that its \<^verbatim>\<open>append\<close> writes past
  the elements of \<open>l\<close>.
\<close>

definition settled_before :: "world \<Rightarrow> asyncLogger \<Rightarrow> asyncLogger \<Rightarrow> bool" where
  "settled_before w l e =
     (s_arr (contextFields e) < nextArray w
      \<and> (s_arr (contextFields e) \<noteq> s_arr (contextFields l)
           \<or> s_len (contextFields l) \<le> s_len (contextFields e)))"

text \<open>
  A logger whose two fields sit in a backing array with room for four, and a world that
  holds that array.
\<close>

definition roomy_logger :: asyncLogger where
  "roomy_logger =
     \<lparr>cfg = \<lparr>Level = InfoLevel, IsProduction = False\<rparr>, logChan = 0, writer = 0,
      bufferSize = 1, flushInterval = defaultFlushInterval,
      contextFields = \<lparr>s_arr = 1, s_len = 2, s_cap = 4\<rparr>\<rparr>"

definition roomy_world :: world where
  "roomy_world =
     (init_world max)
       \<lparr>arrays := (\<lambda>_ _. VNil)(1 := write_at (\<lambda>_. VNil) 0 [VString ''k'', VInt 1]),
        nextArray := 2, chanCap := (\<lambda>_. 8)\<rparr>"

section \<open>The configured capacity\<close>

text \<open>
  The capacity a writer is configured with, in the words of the interface: the positive
  value given by a buffer-size option (the last one, when several are given), else the
  default 4096.
\<close>

fun positive_sizes :: "Option list \<Rightarrow> int list" where
  "positive_sizes [] = []"
| "positive_sizes (WithBufferSize sz # opts) =
     (if 0 < sz then sz # positive_sizes opts else positive_sizes opts)"
| "positive_sizes (WithFlushInterval interval # opts) = positive_sizes opts"

definition configured_capacity :: "Option list \<Rightarrow> int" where
  "configured_capacity opts =
     (case positive_sizes opts of
        [] \<Rightarrow> defaultBufferSize
      | szs \<Rightarrow> last szs)"

text \<open>A writer built with the buffer-size option 1 on an empty world, and its world.\<close>

definition small_writer :: "asyncLogger \<times> world" where
  "small_writer =
     projr (NewAsyncLogger 0 \<lparr>Level = InfoLevel, IsProduction = False\<rparr> [WithBufferSize 1]
              (init_world max))"

section \<open>Correlation tokens\<close>

text \<open>
  \<^verbatim>\<open>requests\<close> is an \<^verbatim>\<open>atomic.Int64\<close>: an integer that wraps at 64 bits. \<open>%\<close> in Go
  truncates towards zero, which is \<open>smod\<close>. \<open>generateTraceFlags\<close> reads the counter
  for the flag and adds one on the way out (the deferred call); run one call after the
  other, it takes the counter and returns the flag with the new counter.
\<close>

definition wrap64 :: "int \<Rightarrow> int" where
  "wrap64 x = (x + 2 ^ 63) mod 2 ^ 64 - 2 ^ 63"

definition generateTraceFlags :: "int \<Rightarrow> string \<times> int" where
  "generateTraceFlags requests =
     (if requests smod 100 = 0 then ''01'' else ''00'', wrap64 (requests + 1))"

text \<open>\<^verbatim>\<open>fmt.Sprintf("%016x", n)\<close> for a 64-bit unsigned \<open>n\<close>: sixteen hexadecimal digits.\<close>

definition hex16 :: "nat \<Rightarrow> string" where
  "hex16 n = map (\<lambda>i. ''0123456789abcdef'' ! ((n div 16 ^ (15 - i)) mod 16)) [0..<16]"

definition generateTraceID :: "nat \<Rightarrow> nat \<Rightarrow> string" where
  "generateTraceID hi lo = hex16 hi @ hex16 lo"

definition generateSpanID :: "nat \<Rightarrow> string" where
  "generateSpanID randomNum = hex16 randomNum"

text \<open>
  \<open>generateTraceparent\<close>, given the three values it draws from \<^verbatim>\<open>rand.Uint64\<close>:
  \<^verbatim>\<open>version-traceid-spanid-flags\<close>.
\<close>

definition generateTraceparent :: "nat \<Rightarrow> nat \<Rightarrow> nat \<Rightarrow> int \<Rightarrow> string \<times> int" where
  "generateTraceparent hi lo sp requests =
     (let version = ''00'';
          traceID = generateTraceID hi lo;
          spanID = generateSpanID sp;
          (traceFlags, requests') = generateTraceFlags requests
      in (version @ ''-'' @ traceID @ ''-'' @ spanID @ ''-'' @ traceFlags, requests'))"

text \<open>\<open>n\<close> generations one after the other: the flags in order, and the counter after.\<close>

fun sequential_flags :: "nat \<Rightarrow> int \<Rightarrow> string list \<times> int" where
  "sequential_flags 0 requests = ([], requests)"
| "sequential_flags (Suc n) requests =
     (let (flag, requests') = generateTraceFlags requests;
          (flags, requests'') = sequential_flags n requests'
      in (flag # flags, requests''))"

section \<open>The task repository and its HTTP handler\<close>

text \<open>
  \<^verbatim>\<open>int\<close> is taken to be 64 bits wide. The repository's locks and the log calls of the
  three layers do not change what \<^verbatim>\<open>GetAll\<close> computes and are left out. A pointer to a
  task is \<open>Some\<close> task, the nil pointer \<open>None\<close>. A result is \<open>Inl\<close> the message of a
  run-time panic, or \<open>Inr\<close> the returned pair of value and error (\<open>None\<close> for nil).
\<close>

record Task =
  ID :: int
  Title :: string
  Status :: string

record TaskRepository =
  tasksByID :: "int \<rightharpoonup> Task"
  tasksByStatus :: "string \<rightharpoonup> int list"
  allTasksIDs :: "int list"
  counter :: int

definition NewTaskRepository :: TaskRepository where
  "NewTaskRepository =
     \<lparr>tasksByID = Map.empty, tasksByStatus = Map.empty, allTasksIDs = [], counter = 0\<rparr>"

definition Create :: "TaskRepository \<Rightarrow> Task \<Rightarrow> Task \<times> TaskRepository" where
  "Create r t =
     (let c = wrap64 (counter r + 1);
          t' = t\<lparr>ID := c\<rparr>;
          old = (case tasksByStatus r (Status t') of None \<Rightarrow> [] | Some ids \<Rightarrow> ids)
      in (t', r\<lparr>counter := c,
                tasksByID := (tasksByID r)(ID t' \<mapsto> t'),
                tasksByStatus := (tasksByStatus r)(Status t' \<mapsto> old @ [ID t']),
                allTasksIDs := allTasksIDs r @ [ID t']\<rparr>))"

text \<open>
  The slice expression \<^verbatim>\<open>s[low:high]\<close> panics unless \<open>0 \<le> low \<le> high \<le> cap(s)\<close>. Where
  \<^verbatim>\<open>GetAll\<close> uses it \<open>high\<close> has been cut down to the length already, so the length
  stands for the capacity.
\<close>

definition slice_expr :: "'a list \<Rightarrow> int \<Rightarrow> int \<Rightarrow> 'a list option" where
  "slice_expr s low high =
     (if 0 \<le> low \<and> low \<le> high \<and> high \<le> int (length s)
      then Some (take (nat (high - low)) (drop (nat low) s))
      else None)"

text \<open>The id list \<^verbatim>\<open>GetAll\<close> pages through; a status without entry gives the nil slice.\<close>

definition selected_ids :: "TaskRepository \<Rightarrow> string \<Rightarrow> int list" where
  "selected_ids r statusFilter =
     (if statusFilter \<noteq> ''''
      then (case tasksByStatus r statusFilter of None \<Rightarrow> [] | Some ids \<Rightarrow> ids)
      else allTasksIDs r)"

definition GetAll ::
  "TaskRepository \<Rightarrow> string \<Rightarrow> int \<Rightarrow> int \<Rightarrow> string + (Task option list \<times> string option)" where
  "GetAll r statusFilter limit offset =
     (let taskIDs = selected_ids r statusFilter in
      if offset \<ge> int (length taskIDs) then Inr ([], None)
      else
        (let end0 = wrap64 (offset + limit);
             end1 = (if end0 > int (length taskIDs) then int (length taskIDs) else end0)
         in case slice_expr taskIDs offset end1 of
              None \<Rightarrow> Inl ''slice bounds out of range''
            | Some paginateIDs \<Rightarrow> Inr (map (tasksByID r) paginateIDs, None)))"

definition GetAllTasks ::
  "TaskRepository \<Rightarrow> string \<Rightarrow> int \<Rightarrow> int \<Rightarrow> string + (Task option list \<times> string option)" where
  "GetAllTasks r statusFilter limit offset =
     (case GetAll r statusFilter limit offset of
        Inl p \<Rightarrow> Inl p
      | Inr (tasks, err) \<Rightarrow>
          (case err of
             Some e \<Rightarrow> Inr ([], Some (''service: error getting all tasks: '' @ e))
           | None \<Rightarrow> Inr (tasks, None)))"

text \<open>
  \<^verbatim>\<open>strconv.Atoi\<close> of the standard library: an optional sign, then one or more decimal
  digits and nothing else, and the value has to fit 64 bits.
\<close>

datatype NumError = ErrSyntax | ErrRange

fun parse_digits :: "nat \<Rightarrow> string \<Rightarrow> nat option" where
  "parse_digits n [] = Some n"
| "parse_digits n (ch # s) =
     (if (of_char (CHR ''0'') :: nat) \<le> of_char ch \<and> (of_char ch :: nat) \<le> of_char (CHR ''9'')
      then parse_digits (n * 10 + (of_char ch - of_char (CHR ''0''))) s
      else None)"

definition Atoi :: "string \<Rightarrow> NumError + int" where
  "Atoi s =
     (case s of
        [] \<Rightarrow> Inl ErrSyntax
      | c # rest \<Rightarrow>
          (let body = (if c = CHR ''-'' \<or> c = CHR ''+'' then rest else s) in
           if body = [] then Inl ErrSyntax
           else case parse_digits 0 body of
                  None \<Rightarrow> Inl ErrSyntax
                | Some n \<Rightarrow>
                    if c = CHR ''-''
                    then (if n > 2 ^ 63 then Inl ErrRange else Inr (- int n))
                    else (if n \<ge> 2 ^ 63 then Inl ErrRange else Inr (int n))))"

text \<open>
  The query of a request: the key/value pairs in the order of the URL; \<^verbatim>\<open>Get\<close> gives the
  first value of a key, or the empty string.
\<close>

type_synonym query = "(string \<times> string) list"

definition query_Get :: "query \<Rightarrow> string \<Rightarrow> string" where
  "query_Get q key = (case map_of q key of None \<Rightarrow> '''' | Some v \<Rightarrow> v)"

definition defaultLimit :: int where "defaultLimit = 10"
definition defaultOffset :: int where "defaultOffset = 0"

definition parseIntQueryParam :: "query \<Rightarrow> string \<Rightarrow> int \<Rightarrow> NumError + int" where
  "parseIntQueryParam q key defaultValue =
     (let valStr = query_Get q key in
      if valStr = '''' then Inr defaultValue
      else case Atoi valStr of Inl err \<Rightarrow> Inl err | Inr v \<Rightarrow> Inr v)"

datatype response = WriteError nat string | WriteJSON nat "Task option list"

definition getTasks :: "TaskRepository \<Rightarrow> query \<Rightarrow> string + response" where
  "getTasks r q =
     (let statusFilter = query_Get q ''status'' in
      case parseIntQueryParam q ''limit'' defaultLimit of
        Inl err \<Rightarrow> Inr (WriteError 400 ''Invalid limit'')
      | Inr limit \<Rightarrow>
          (case parseIntQueryParam q ''offset'' defaultOffset of
             Inl err \<Rightarrow> Inr (WriteError 400 ''Invalid offset'')
           | Inr offset \<Rightarrow>
               (case GetAllTasks r statusFilter limit offset of
                  Inl p \<Rightarrow> Inl p
                | Inr (tasks, err) \<Rightarrow>
                    (case err of
                       Some e \<Rightarrow> Inr (WriteError 500 ''error getting tasks'')
                     | None \<Rightarrow> Inr (WriteJSON 200 tasks)))))"

section \<open>Helper facts\<close>

lemma lower_byte_idem: "lower_byte (lower_byte c) = lower_byte c"
  by (simp add: lower_byte_def)

lemma lower_byte_ascii: "((of_char (lower_byte c) :: nat) < 128) = ((of_char c :: nat) < 128)"
  by (simp add: lower_byte_def)

lemma isASCII_map_lower_byte: "isASCII (map lower_byte s) = isASCII s"
  by (simp add: isASCII_def list_all_iff lower_byte_ascii)

lemma ToLower_ascii_idem:
  "isASCII s \<Longrightarrow> ToLower mapRunes (ToLower mapRunes s) = ToLower mapRunes s"
  by (simp add: ToLower_def isASCII_map_lower_byte lower_byte_idem)

lemmas ToLower_eval =
  ToLower_def isASCII_def lower_byte_def char_of_def bit_Suc_0_iff

lemma ParseLevel_table:
  "ParseLevel mapRunes s =
     (case map_of level_table (ToLower mapRunes s) of Some v \<Rightarrow> v | None \<Rightarrow> InfoLevel)"
  by (simp add: ParseLevel_def level_table_def Let_def)

lemma map_write_at:
  "map (write_at a n xs) [0..<n + length xs] = map a [0..<n] @ xs"
  by (rule nth_equalityI) (auto simp: write_at_def nth_append)

lemma map_write_at_below:
  "m \<le> n \<Longrightarrow> map (write_at a n xs) [0..<m] = map a [0..<m]"
  by (simp add: write_at_def)

lemma write_at_0: "x < length xs \<Longrightarrow> write_at a 0 xs x = xs ! x"
  by (simp add: write_at_def)

lemma elems_append_slice:
  "append_slice s xs w = (s', w') \<Longrightarrow> elems w' s' = elems w s @ xs"
  by (auto simp: append_slice_def Let_def elems_def map_write_at map_write_at_below write_at_0
      split: if_splits)

lemma append_slice_frame:
  "append_slice s xs w = (s', w') \<Longrightarrow>
     chans w' = chans w \<and> chanCap w' = chanCap w \<and> nextChan w' = nextChan w
     \<and> ctxDone w' = ctxDone w \<and> workers w' = workers w \<and> stdout w' = stdout w
     \<and> stderr w' = stderr w \<and> growCap w' = growCap w"
  by (auto simp: append_slice_def Let_def split: if_splits)

lemma log_eq:
  "log l now level msg flds w =
     enqueue (logChan l) (log_line now level msg (elems w (contextFields l) @ flds))
       (snd (append_slice (contextFields l) flds w))"
  by (cases "append_slice (contextFields l) flds w") (simp add: log_def elems_append_slice)

lemma log_chans:
  "chans (log l now level msg flds w) =
     (if length (chans w (logChan l)) < chanCap w (logChan l)
      then (chans w)(logChan l := chans w (logChan l) @ [log_line now level msg (elems w (contextFields l) @ flds)])
      else chans w)"
  using append_slice_frame [of "contextFields l" flds w]
  by (cases "append_slice (contextFields l) flds w") (simp add: log_eq enqueue_def)

lemma log_stderr:
  "stderr (log l now level msg flds w) =
     (if length (chans w (logChan l)) < chanCap w (logChan l) then stderr w
      else stderr w @ dropped_warning (log_line now level msg (elems w (contextFields l) @ flds)))"
  using append_slice_frame [of "contextFields l" flds w]
  by (cases "append_slice (contextFields l) flds w") (simp add: log_eq enqueue_def)

lemma log_frame:
  "chanCap (log l now level msg flds w) = chanCap w
   \<and> nextChan (log l now level msg flds w) = nextChan w
   \<and> ctxDone (log l now level msg flds w) = ctxDone w
   \<and> workers (log l now level msg flds w) = workers w
   \<and> stdout (log l now level msg flds w) = stdout w
   \<and> growCap (log l now level msg flds w) = growCap w"
  using append_slice_frame [of "contextFields l" flds w]
  by (cases "append_slice (contextFields l) flds w") (simp add: log_eq enqueue_def)

lemma example_simps:
  "logChan (example_logger t) = 0" "contextFields (example_logger t) = nil_slice"
  "Level (cfg (example_logger t)) = t"
  "chans example_world 0 = []" "chanCap example_world 0 = 1" "stderr example_world = []"
  "elems w nil_slice = []"
  by (simp_all add: example_logger_def example_world_def init_world_def elems_def nil_slice_def)

section \<open>Helper facts: the encoded line\<close>

lemma odd_length_drop: "odd (length xs) \<Longrightarrow> drop (Suc 0 - length xs) ys = ys"
  by (cases xs) simp_all

lemma log_fields_even_append:
  "even (length kvs) \<Longrightarrow> log_fields sb (kvs @ rest) = log_fields (log_fields sb kvs) rest"
  by (induction sb kvs rule: log_fields.induct) (auto simp: odd_length_drop split: list.splits)

lemma log_fields_non_string:
  "\<not> is_string k \<Longrightarrow> log_fields sb (k # rest) = log_fields (sb @ '' '') (drop 1 rest)"
  by (cases k) simp_all


section \<open>Helper facts: the worker\<close>

lemma run_append: "run l (xs @ ys) w = run l ys (run l xs w)"
  by (induction xs arbitrary: w) simp_all

lemma flush_in_flight: "in_flight c (flush c w) = in_flight c w"
  by (simp add: flush_def in_flight_def)

lemma flush_frame:
  "chans (flush c w) = chans w" "chanCap (flush c w) = chanCap w"
  "ctxDone (flush c w) = ctxDone w" "stderr (flush c w) = stderr w"
  "w_pc (workers (flush c w) c') = w_pc (workers w c')"
  "w_ctx (workers (flush c w) c') = w_ctx (workers w c')"
  "batch (workers (flush c w) c) = []"
  by (simp_all add: flush_def)

lemma flush_stdout: "stdout (flush c w) = stdout w @ batch (workers w c)"
  by (simp add: flush_def)

lemma run_step_in_flight: "in_flight (logChan l) (run_step l ch w) = in_flight (logChan l) w"
  by (auto simp: run_step_def Let_def in_flight_def set_pc_def receive_def flush_def
      split: pc.splits choice.splits list.splits)

lemma run_step_frame:
  "ctxDone (run_step l ch w) = ctxDone w"
  "chanCap (run_step l ch w) = chanCap w"
  "stderr (run_step l ch w) = stderr w"
  "w_ctx (workers (run_step l ch w) c') = w_ctx (workers w c')"
  "length (chans (run_step l ch w) c') \<le> length (chans w c')"
  by (auto simp: run_step_def Let_def set_pc_def receive_def flush_def
      split: pc.splits choice.splits list.splits)

lemma run_step_selecting:
  "w_pc (workers w (logChan l)) = Selecting \<Longrightarrow>
   ch \<noteq> CtxDone \<or> \<not> ctxDone w (w_ctx (workers w (logChan l))) \<Longrightarrow>
   w_pc (workers (run_step l ch w) (logChan l)) = Selecting"
  by (auto simp: run_step_def Let_def set_pc_def receive_def flush_def
      split: pc.splits choice.splits list.splits)

lemma run_selecting:
  "w_pc (workers w (logChan l)) = Selecting \<Longrightarrow> CtxDone \<notin> set chs \<Longrightarrow>
   w_pc (workers (run l chs w) (logChan l)) = Selecting
   \<and> in_flight (logChan l) (run l chs w) = in_flight (logChan l) w
   \<and> ctxDone (run l chs w) = ctxDone w
   \<and> w_ctx (workers (run l chs w) (logChan l)) = w_ctx (workers w (logChan l))
   \<and> length (chans (run l chs w) (logChan l)) \<le> length (chans w (logChan l))"
proof (induction chs arbitrary: w)
  case Nil
  then show ?case by simp
next
  case (Cons ch chs)
  have sel: "w_pc (workers (run_step l ch w) (logChan l)) = Selecting"
    using Cons.prems by (intro run_step_selecting) auto
  have rest: "CtxDone \<notin> set chs" using Cons.prems by simp
  have le: "length (chans (run_step l ch w) (logChan l)) \<le> length (chans w (logChan l))"
    by (rule run_step_frame)
  note ih = Cons.IH [OF sel rest]
  have l2: "length (chans (run l chs (run_step l ch w)) (logChan l)) \<le> length (chans w (logChan l))"
    using ih le by linarith
  show ?case
    using ih l2 by (simp add: run_step_in_flight run_step_frame(1-4))
qed

lemma run_step_returned:
  "w_pc (workers w (logChan l)) = Returned \<Longrightarrow> run_step l ch w = w"
  by (simp add: run_step_def Let_def)

lemma run_returned:
  "w_pc (workers w (logChan l)) = Returned \<Longrightarrow> run l chs w = w"
  by (induction chs) (simp_all add: run_step_returned)

lemma run_draining:
  "w_pc (workers w (logChan l)) = Draining \<Longrightarrow> length (chans w (logChan l)) < length ds \<Longrightarrow>
   w_pc (workers (run l ds w) (logChan l)) = Returned
   \<and> chans (run l ds w) (logChan l) = []
   \<and> batch (workers (run l ds w) (logChan l)) = []
   \<and> stdout (run l ds w) = in_flight (logChan l) w"
proof (induction ds arbitrary: w)
  case Nil
  then show ?case by simp
next
  case (Cons d ds)
  show ?case
  proof (cases "chans w (logChan l)")
    case Nil
    let ?w' = "run_step l d w"
    have st: "?w' = set_pc (logChan l) Returned (flush (logChan l) w)"
      using Cons.prems Nil by (simp add: run_step_def Let_def)
    have ret: "run l ds ?w' = ?w'"
      by (rule run_returned) (simp add: st set_pc_def)
    show ?thesis
      using Nil by (simp add: ret) (simp add: st set_pc_def flush_def in_flight_def)
  next
    case (Cons m rest)
    let ?w' = "run_step l d w"
    have st: "?w' = receive (logChan l) m rest w"
      using Cons.prems Cons by (simp add: run_step_def Let_def)
    have pc': "w_pc (workers ?w' (logChan l)) = Draining"
      using Cons.prems by (simp add: st receive_def)
    have len: "length (chans ?w' (logChan l)) < length ds"
      using Cons.prems Cons by (simp add: st receive_def)
    have fl: "in_flight (logChan l) ?w' = in_flight (logChan l) w"
      by (rule run_step_in_flight)
    from Cons.IH [OF pc' len] fl show ?thesis by simp
  qed
qed

lemma drain_after_cancel:
  assumes sel: "w_pc (workers w (logChan l)) = Selecting"
    and dn: "ctxDone w (w_ctx (workers w (logChan l)))"
    and chs: "CtxDone \<notin> set chs"
    and ds: "length (chans w (logChan l)) < length ds"
  shows "w_pc (workers (run l (chs @ CtxDone # ds) w) (logChan l)) = Returned
   \<and> chans (run l (chs @ CtxDone # ds) w) (logChan l) = []
   \<and> batch (workers (run l (chs @ CtxDone # ds) w) (logChan l)) = []
   \<and> stdout (run l (chs @ CtxDone # ds) w) = in_flight (logChan l) w"
proof -
  let ?c = "logChan l"
  let ?w1 = "run l chs w"
  let ?w2 = "run_step l CtxDone ?w1"
  note s1 = run_selecting [OF sel chs]
  have dn1: "ctxDone ?w1 (w_ctx (workers ?w1 ?c))" using s1 dn by simp
  have w2: "?w2 = set_pc ?c Draining ?w1"
    using s1 dn1 by (simp add: run_step_def Let_def)
  have pc2: "w_pc (workers ?w2 ?c) = Draining" by (simp add: w2 set_pc_def)
  have len2: "length (chans ?w2 ?c) < length ds"
    using s1 ds by (simp add: w2 set_pc_def)
  have fl2: "in_flight ?c ?w2 = in_flight ?c w"
    using s1 by (simp add: run_step_in_flight)
  from run_draining [OF pc2 len2] fl2 show ?thesis
    by (simp add: run_append)
qed

lemma foldl_apply_option_frame:
  "cfg (foldl apply_option l opts) = cfg l \<and> logChan (foldl apply_option l opts) = logChan l
   \<and> writer (foldl apply_option l opts) = writer l
   \<and> contextFields (foldl apply_option l opts) = contextFields l"
proof (induction opts arbitrary: l)
  case Nil
  then show ?case by simp
next
  case (Cons opt opts)
  show ?case using Cons.IH [of "apply_option l opt"] by (cases opt) simp_all
qed

lemma foldl_apply_option_pos:
  "0 < bufferSize l \<Longrightarrow> 0 < bufferSize (foldl apply_option l opts)"
proof (induction opts arbitrary: l)
  case Nil
  then show ?case by simp
next
  case (Cons opt opts)
  show ?case using Cons.prems by (cases opt) (auto intro: Cons.IH)
qed

lemma NewAsyncLogger_Inr:
  assumes "NewAsyncLogger ctx cf opts w0 = Inr (l, w1)"
  shows "logChan l = nextChan w0" "cfg l = cf" "contextFields l = nil_slice"
    "0 < bufferSize l"
    "chans w1 (logChan l) = []" "chanCap w1 (logChan l) = nat (bufferSize l + 1)"
    "workers w1 (logChan l) = \<lparr>w_ctx = ctx, batch = [], w_pc = Selecting\<rparr>"
    "stdout w1 = stdout w0" "stderr w1 = stderr w0" "ctxDone w1 = ctxDone w0"
    "arrays w1 = arrays w0" "nextArray w1 = nextArray w0"
  using assms foldl_apply_option_pos [of "\<lparr>cfg = cf, logChan = 0, writer = nextChan w0, bufferSize = defaultBufferSize,
                flushInterval = defaultFlushInterval, contextFields = nil_slice\<rparr>" opts]
  by (auto simp: NewAsyncLogger_def Let_def foldl_apply_option_frame defaultBufferSize_def
      split: if_splits)

lemma log_in_flight:
  "in_flight c (log l now level msg flds w) =
     in_flight c w @ (if logChan l = c \<and> length (chans w c) < chanCap w c
        then log_line now level msg (elems w (contextFields l) @ flds) else [])"
  by (simp add: in_flight_def log_chans log_frame)

lemma history_in_flight:
  assumes "w_pc (workers w (logChan l)) = Selecting"
    and "\<not> ctxDone w ctx" and "w_ctx (workers w (logChan l)) = ctx"
    and "list_all (before_cancel ctx l) es"
  shows "in_flight (logChan l) (exec es w) = in_flight (logChan l) w @ concat (accepted (logChan l) es w)
     \<and> w_pc (workers (exec es w) (logChan l)) = Selecting
     \<and> \<not> ctxDone (exec es w) ctx
     \<and> w_ctx (workers (exec es w) (logChan l)) = ctx"
  using assms
proof (induction es arbitrary: w)
  case Nil
  then show ?case by simp
next
  case (Cons e es)
  show ?case
  proof (cases e)
    case (ELog l' now level msg flds)
    let ?w' = "log l' now level msg flds w"
    have a: "w_pc (workers ?w' (logChan l)) = Selecting" "\<not> ctxDone ?w' ctx"
      "w_ctx (workers ?w' (logChan l)) = ctx"
      using Cons.prems by (simp_all add: log_frame)
    have b: "list_all (before_cancel ctx l) es" using Cons.prems by simp
    from Cons.IH [OF a b] show ?thesis
      by (auto simp: ELog log_in_flight)
  next
    case (EWork l' ch)
    then have eq: "l' = l" using Cons.prems by simp
    let ?w' = "run_step l ch w"
    have a: "w_pc (workers ?w' (logChan l)) = Selecting"
      using Cons.prems by (intro run_step_selecting) simp_all
    have a2: "\<not> ctxDone ?w' ctx" "w_ctx (workers ?w' (logChan l)) = ctx"
      using Cons.prems by (simp_all add: run_step_frame)
    have b: "list_all (before_cancel ctx l) es" using Cons.prems by simp
    from Cons.IH [OF a a2 b] show ?thesis
      by (simp add: EWork eq run_step_in_flight)
  next
    case (ECancel ctx')
    then have ne: "ctx' \<noteq> ctx" using Cons.prems by simp
    let ?w' = "cancel ctx' w"
    have a: "w_pc (workers ?w' (logChan l)) = Selecting" "\<not> ctxDone ?w' ctx"
      "w_ctx (workers ?w' (logChan l)) = ctx"
      using Cons.prems ne by (simp_all add: cancel_def)
    have b: "list_all (before_cancel ctx l) es" using Cons.prems by simp
    from Cons.IH [OF a b] show ?thesis
      by (simp add: ECancel) (simp add: cancel_def in_flight_def)
  qed
qed

section \<open>Helper facts: leveled calls\<close>

lemma call_eq:
  "snd (call m l now msg flds w) =
     (if Level (cfg l) \<le> severity m then log l now (level_text m) msg flds w else w)"
  by (cases m) (simp_all add: Debug_def Info_def Warn_def Error_def DPanic_def Panic_def Fatal_def)

lemma log_queued:
  "length (chans w (logChan l)) < chanCap w (logChan l) \<Longrightarrow>
   chans (log l now level msg flds w) (logChan l)
     = chans w (logChan l) @ [log_line now level msg (elems w (contextFields l) @ flds)]"
  by (simp add: log_chans)

lemma elems_nil_slice: "elems w nil_slice = []"
  by (simp add: elems_def nil_slice_def)

lemma in_flight_cancel: "in_flight c (cancel ctx w) = in_flight c w"
  by (simp add: in_flight_def cancel_def)

lemma call_enabled:
  "Level (cfg l) \<le> severity m \<Longrightarrow>
   call m l now msg flds w = (after_record m (cfg l) msg, log l now (level_text m) msg flds w)"
  by (cases m) (simp_all add: Debug_def Info_def Warn_def Error_def DPanic_def Panic_def Fatal_def)

lemma call_disabled:
  "\<not> Level (cfg l) \<le> severity m \<Longrightarrow> call m l now msg flds w = (Returns, w)"
  by (cases m) (simp_all add: Debug_def Info_def Warn_def Error_def DPanic_def Panic_def Fatal_def)

lemma log_length_chans:
  "length (chans (log l now level msg flds w) c) \<le> Suc (length (chans w c))"
  by (simp add: log_chans)

lemma call_drained:
  assumes lw: "logChan lw = logChan l"
    and sel: "w_pc (workers w (logChan l)) = Selecting"
    and chs: "CtxDone \<notin> set chs"
    and ds: "length (chans w (logChan l)) + 1 < length ds"
  shows "stdout (run lw (chs @ CtxDone # ds)
            (cancel (w_ctx (workers w (logChan l))) (snd (call m l now msg flds w))))
         = stdout w @ batch (workers w (logChan l)) @ concat (chans w (logChan l))
           @ (if Level (cfg l) \<le> severity m \<and> length (chans w (logChan l)) < chanCap w (logChan l)
              then log_line now (level_text m) msg (elems w (contextFields l) @ flds) else [])"
proof -
  let ?c = "logChan l"
  let ?w' = "snd (call m l now msg flds w)"
  let ?w3 = "cancel (w_ctx (workers w ?c)) ?w'"
  have wk: "workers ?w' = workers w"
    by (cases "Level (cfg l) \<le> severity m") (simp_all add: call_enabled call_disabled log_frame)
  have len: "length (chans ?w' ?c) \<le> length (chans w ?c) + 1"
    by (cases "Level (cfg l) \<le> severity m")
      (simp_all add: call_enabled call_disabled log_length_chans)
  have fl: "in_flight ?c ?w' = in_flight ?c w
           @ (if Level (cfg l) \<le> severity m \<and> length (chans w ?c) < chanCap w ?c
              then log_line now (level_text m) msg (elems w (contextFields l) @ flds) else [])"
    by (cases "Level (cfg l) \<le> severity m")
      (simp_all add: call_enabled call_disabled log_in_flight)
  have s3: "w_pc (workers ?w3 (logChan lw)) = Selecting"
    "ctxDone ?w3 (w_ctx (workers ?w3 (logChan lw)))"
    "length (chans ?w3 (logChan lw)) < length ds"
    using sel ds len by (simp_all add: cancel_def wk lw)
  from drain_after_cancel [OF s3(1) s3(2) chs s3(3)]
  have "stdout (run lw (chs @ CtxDone # ds) ?w3) = in_flight ?c ?w3" by (simp add: lw)
  also have "\<dots> = in_flight ?c ?w'" by (rule in_flight_cancel)
  finally show ?thesis by (simp add: fl) (simp add: in_flight_def)
qed

section \<open>Helper facts: the queue bound\<close>

lemma bufferSize_foldl:
  "bufferSize (foldl apply_option l opts) =
     (case positive_sizes opts of [] \<Rightarrow> bufferSize l | szs \<Rightarrow> last szs)"
proof (induction opts arbitrary: l)
  case Nil
  then show ?case by simp
next
  case (Cons opt opts)
  show ?case
    by (cases opt) (auto simp: Cons.IH split: list.splits)
qed

lemma NewAsyncLogger_capacity:
  "NewAsyncLogger ctx cf opts w0 = Inr (l, w1) \<Longrightarrow> bufferSize l = configured_capacity opts"
  by (auto simp: NewAsyncLogger_def Let_def configured_capacity_def bufferSize_foldl
      split: if_splits list.splits)

lemma step_bounded:
  "length (chans w c) \<le> chanCap w c \<Longrightarrow>
   length (chans (step e w) c) \<le> chanCap w c \<and> chanCap (step e w) = chanCap w"
proof (cases e)
  case (ELog l now level msg flds)
  assume "length (chans w c) \<le> chanCap w c"
  then show ?thesis by (auto simp: ELog log_chans log_frame)
next
  case (EWork l ch)
  assume a: "length (chans w c) \<le> chanCap w c"
  have "length (chans (run_step l ch w) c) \<le> length (chans w c)" by (rule run_step_frame)
  with a show ?thesis by (simp add: EWork run_step_frame(2))
next
  case (ECancel ctx)
  assume "length (chans w c) \<le> chanCap w c"
  then show ?thesis by (simp add: ECancel cancel_def)
qed

lemma exec_bounded:
  "length (chans w c) \<le> chanCap w c \<Longrightarrow>
   length (chans (exec es w) c) \<le> chanCap w c \<and> chanCap (exec es w) = chanCap w"
proof (induction es arbitrary: w)
  case Nil
  then show ?case by simp
next
  case (Cons e es)
  from step_bounded [OF Cons.prems, of e]
  have s: "length (chans (step e w) c) \<le> chanCap (step e w) c" "chanCap (step e w) = chanCap w"
    by simp_all
  from Cons.IH [OF s(1)] s(2) show ?case by simp
qed

lemma small_writer_eq:
  "logChan (fst small_writer) = 0" "bufferSize (fst small_writer) = 1"
  "contextFields (fst small_writer) = nil_slice"
  "chans (snd small_writer) 0 = []" "chanCap (snd small_writer) 0 = 2"
  "NewAsyncLogger 0 \<lparr>Level = InfoLevel, IsProduction = False\<rparr> [WithBufferSize 1] (init_world max)
     = Inr (fst small_writer, snd small_writer)"
  by (simp_all add: small_writer_def NewAsyncLogger_def Let_def maxInt_def init_world_def)

section \<open>Helper facts: slices and derivation\<close>

lemma length_elems: "length (elems w s) = s_len s"
  by (simp add: elems_def)

lemma map_write_at_0: "map (write_at a 0 xs) [0..<length xs] = xs"
  using map_write_at [of a 0 xs] by simp

lemma elems_cong_arr:
  "arrays w' (s_arr s) = arrays w (s_arr s) \<Longrightarrow> elems w' s = elems w s"
  by (simp add: elems_def)

lemma append_slice_other:
  assumes "append_slice s xs w = (s', w')" and "s_arr t < nextArray w"
    and "s_arr t \<noteq> s_arr s \<or> s_len t \<le> s_len s"
  shows "elems w' t = elems w t"
  using assms
  by (auto simp: append_slice_def Let_def elems_def write_at_def split: if_splits)

lemma append_slice_next:
  "append_slice s xs w = (s', w') \<Longrightarrow>
     nextArray w \<le> nextArray w' \<and> (s_arr s < nextArray w \<longrightarrow> s_arr s' < nextArray w')
     \<and> (s_arr s' = s_arr s \<and> s_len s \<le> s_len s' \<or> nextArray w \<le> s_arr s')"
  by (auto simp: append_slice_def Let_def split: if_splits)

lemma log_elems_other:
  assumes "s_arr t < nextArray w"
    and "s_arr t \<noteq> s_arr (contextFields l) \<or> s_len t \<le> s_len (contextFields l)"
  shows "elems (log l now level msg flds w) t = elems w t"
proof -
  obtain s' w' where a: "append_slice (contextFields l) flds w = (s', w')"
    by (cases "append_slice (contextFields l) flds w")
  have "arrays (log l now level msg flds w) = arrays w'"
    by (simp add: log_def a enqueue_def)
  then have "elems (log l now level msg flds w) t = elems w' t" by (simp add: elems_def)
  with append_slice_other [OF a assms] show ?thesis by simp
qed

lemma log_nextArray: "nextArray w \<le> nextArray (log l now level msg flds w)"
proof -
  obtain s' w' where a: "append_slice (contextFields l) flds w = (s', w')"
    by (cases "append_slice (contextFields l) flds w")
  have "nextArray (log l now level msg flds w) = nextArray w'"
    by (simp add: log_def a enqueue_def)
  with append_slice_next [OF a] show ?thesis by simp
qed

lemma With_facts:
  assumes W: "With l fs w = (l', w')" and wf: "s_arr (contextFields l) < nextArray w"
  shows "elems w' (contextFields l') = elems w (contextFields l) @ fs"
    and "cfg l' = cfg l \<and> logChan l' = logChan l \<and> writer l' = writer l
         \<and> bufferSize l' = bufferSize l \<and> flushInterval l' = flushInterval l"
    and "nextArray w \<le> s_arr (contextFields l')"
    and "s_arr (contextFields l') < nextArray w'"
    and "nextArray w < nextArray w'"
    and "\<And>t. s_arr t < nextArray w \<Longrightarrow> elems w' t = elems w t"
    and "chans w' = chans w \<and> chanCap w' = chanCap w \<and> workers w' = workers w
         \<and> stdout w' = stdout w \<and> stderr w' = stderr w \<and> ctxDone w' = ctxDone w"
proof -
  let ?p = "contextFields l"
  let ?n = "s_len ?p"
  let ?s0 = "\<lparr>s_arr = nextArray w, s_len = ?n, s_cap = ?n\<rparr>"
  let ?w1 = "w\<lparr>arrays := (arrays w)(nextArray w := (\<lambda>_. VNil)), nextArray := nextArray w + 1\<rparr>"
  let ?w2 = "copy_slice ?s0 ?p ?w1"
  obtain s1 w3 where ap: "append_slice ?s0 fs ?w2 = (s1, w3)"
    by (cases "append_slice ?s0 fs ?w2")
  have eq: "l' = l\<lparr>contextFields := s1\<rparr>" "w' = w3"
    using W ap by (simp_all add: With_def make_slice_def)
  have ne: "s_arr ?p \<noteq> nextArray w" using wf by simp
  have p1: "elems ?w1 ?p = elems w ?p" using wf by (auto simp: elems_def)
  have a2: "arrays ?w2 (nextArray w) = write_at (\<lambda>_. VNil) 0 (elems w ?p)"
    using p1 length_elems [of w ?p] by (simp add: copy_slice_def)
  have "elems ?w2 ?s0 = map (arrays ?w2 (nextArray w)) [0..<?n]"
    by (simp add: elems_def)
  also have "\<dots> = map (write_at (\<lambda>_. VNil) 0 (elems w ?p)) [0..<length (elems w ?p)]"
    by (simp only: a2 length_elems)
  also have "\<dots> = elems w ?p"
    by (rule map_write_at_0)
  finally have e2: "elems ?w2 ?s0 = elems w ?p" .
  have n2: "nextArray ?w2 = nextArray w + 1" by (simp add: copy_slice_def)
  show "elems w' (contextFields l') = elems w ?p @ fs"
    using elems_append_slice [OF ap] e2 by (simp add: eq)
  show "cfg l' = cfg l \<and> logChan l' = logChan l \<and> writer l' = writer l
         \<and> bufferSize l' = bufferSize l \<and> flushInterval l' = flushInterval l"
    by (simp add: eq)
  from append_slice_next [OF ap] n2
  show "nextArray w \<le> s_arr (contextFields l')" "s_arr (contextFields l') < nextArray w'"
    "nextArray w < nextArray w'"
    by (auto simp: eq)
  show "elems w' t = elems w t" if t: "s_arr t < nextArray w" for t
  proof -
    have "elems ?w2 t = elems w t" using t by (simp add: copy_slice_def elems_def)
    moreover have "elems w3 t = elems ?w2 t"
      using t n2 by (intro append_slice_other [OF ap]) simp_all
    ultimately show ?thesis by (simp add: eq)
  qed
  from append_slice_frame [OF ap]
  show "chans w' = chans w \<and> chanCap w' = chanCap w \<and> workers w' = workers w
         \<and> stdout w' = stdout w \<and> stderr w' = stderr w \<and> ctxDone w' = ctxDone w"
    by (simp add: eq copy_slice_def)
qed

lemma small_writer_nextArray: "nextArray (snd small_writer) = 1"
  by (simp add: small_writer_def NewAsyncLogger_def Let_def maxInt_def init_world_def)

lemma run_step_arrays:
  "arrays (run_step l ch w) = arrays w \<and> nextArray (run_step l ch w) = nextArray w"
  by (auto simp: run_step_def Let_def set_pc_def receive_def flush_def
      split: pc.splits choice.splits list.splits)

lemma step_elems_other:
  assumes "s_arr t < nextArray w"
    and "\<forall>e\<in>set (emitters [ev]). s_arr (contextFields e) \<noteq> s_arr t \<or> s_len t \<le> s_len (contextFields e)"
  shows "elems (step ev w) t = elems w t \<and> nextArray w \<le> nextArray (step ev w)"
proof (cases ev)
  case (ELog l now level msg flds)
  with assms show ?thesis
    by (simp add: log_elems_other log_nextArray)
next
  case (EWork l ch)
  then show ?thesis by (simp add: run_step_arrays elems_def)
next
  case (ECancel ctx)
  then show ?thesis by (simp add: cancel_def elems_def)
qed

lemma emitters_Cons: "set (emitters (ev # es)) = set (emitters [ev]) \<union> set (emitters es)"
  by (cases ev) simp_all

lemma exec_elems_other:
  assumes "s_arr t < nextArray w"
    and "\<forall>e\<in>set (emitters es). s_arr (contextFields e) \<noteq> s_arr t \<or> s_len t \<le> s_len (contextFields e)"
  shows "elems (exec es w) t = elems w t \<and> nextArray w \<le> nextArray (exec es w)"
  using assms
proof (induction es arbitrary: w)
  case Nil
  then show ?case by simp
next
  case (Cons ev es)
  have one: "\<forall>e\<in>set (emitters [ev]). s_arr (contextFields e) \<noteq> s_arr t \<or> s_len t \<le> s_len (contextFields e)"
    and rest: "\<forall>e\<in>set (emitters es). s_arr (contextFields e) \<noteq> s_arr t \<or> s_len t \<le> s_len (contextFields e)"
    using Cons.prems(2) emitters_Cons [of ev es] by auto
  note s = step_elems_other [OF Cons.prems(1) one]
  have lt: "s_arr t < nextArray (step ev w)" using s Cons.prems(1) by simp
  from Cons.IH [OF lt rest] s show ?case by simp
qed

lemma roomy_simps:
  "contextFields roomy_logger = \<lparr>s_arr = 1, s_len = 2, s_cap = 4\<rparr>"
  "logChan roomy_logger = 0"
  "nextArray roomy_world = 2"
  "elems roomy_world (contextFields roomy_logger) = [VString ''k'', VInt 1]"
  "settled_before roomy_world roomy_logger roomy_logger"
  by (simp_all add: roomy_logger_def roomy_world_def init_world_def elems_def write_at_def
      settled_before_def upt_rec)


section \<open>Helper facts: the sampling counter\<close>

lemma wrap64_id: "- (2 ^ 63) \<le> x \<Longrightarrow> x < 2 ^ 63 \<Longrightarrow> wrap64 x = x"
  by (simp add: wrap64_def)

lemma smod_100_nonneg: "0 \<le> r \<Longrightarrow> (r smod 100 = 0) = (r mod 100 = (0::int))"
  by (simp add: smod_int_alt_def sgn_if)

lemma sequential_flags_run:
  "0 \<le> r \<Longrightarrow> r + int n < 2 ^ 63 \<Longrightarrow>
   sequential_flags n r =
     (map (\<lambda>i. if (r + int i) mod 100 = 0 then ''01'' else ''00'') [0..<n], r + int n)"
proof (induction n arbitrary: r)
  case 0
  then show ?case by simp
next
  case (Suc n)
  have w: "wrap64 (r + 1) = r + 1" using Suc.prems by (intro wrap64_id) simp_all
  have ih: "sequential_flags n (r + 1) =
     (map (\<lambda>i. if (r + 1 + int i) mod 100 = 0 then ''01'' else ''00'') [0..<n], r + 1 + int n)"
    using Suc.prems by (intro Suc.IH) simp_all
  have shift: "map (\<lambda>i. if (r + int i) mod 100 = 0 then ''01'' else ''00'') [0..<Suc n]
      = (if r mod 100 = 0 then ''01'' else ''00'')
        # map (\<lambda>i. if (r + 1 + int i) mod 100 = 0 then ''01'' else ''00'') [0..<n]"
    by (simp add: upt_conv_Cons map_Suc_upt [symmetric] add.assoc del: upt_Suc)
  show ?case
    using Suc.prems
    by (simp only: sequential_flags.simps generateTraceFlags_def w ih shift Let_def prod.case
        smod_100_nonneg) simp
qed

lemma count_every_100th:
  "length (filter (\<lambda>i. i mod 100 = 0) [0..<100 * k]) = k"
proof (induction k)
  case 0
  then show ?case by simp
next
  case (Suc k)
  have split: "[0..<100 * Suc k] = [0..<100 * k] @ [100 * k..<100 * k + 100]"
  proof -
    have e: "100 * Suc k = 100 * k + 100" by simp
    show ?thesis by (simp only: e upt_add_eq_append [OF le0])
  qed
  have blk: "filter (\<lambda>i. i mod 100 = 0) [100 * k..<100 * k + 100] = [100 * k]"
  proof -
    have "[100 * k..<100 * k + 100] = 100 * k # [100 * k + 1..<100 * k + 100]"
      by (simp add: upt_conv_Cons)
    moreover have "i mod 100 \<noteq> 0" if "100 * k < i" "i < 100 * k + 100" for i :: nat
    proof
      assume "i mod 100 = 0"
      then obtain q where q: "i = 100 * q" by (auto simp: mod_eq_0_iff_dvd)
      from that have "k < q" "q < k + 1" by (simp_all add: q)
      then show False by simp
    qed
    then have "filter (\<lambda>i. i mod 100 = 0) [100 * k + 1..<100 * k + 100] = []"
      by (simp add: filter_empty_conv)
    ultimately show ?thesis by simp
  qed
  show ?case by (simp only: split filter_append length_append blk Suc.IH) simp
qed

lemma int_mod_100: "(int i mod 100 = 0) = (i mod 100 = 0)"
proof -
  have "int i mod 100 = int (i mod 100)" by (simp add: zmod_int)
  then show ?thesis by simp
qed

lemma sequential_flags_1000:
  "sequential_flags 1000 0 =
     (map (\<lambda>i. if i mod 100 = 0 then ''01'' else ''00'') [0..<1000], 1000)"
proof -
  have "sequential_flags 1000 0 =
     (map (\<lambda>i. if (0 + int i) mod 100 = 0 then ''01'' else ''00'') [0..<1000], 0 + int 1000)"
    by (rule sequential_flags_run) simp_all
  then show ?thesis by (simp only: add_0 int_mod_100 of_nat_numeral)
qed

section \<open>Helper facts: paging\<close>

lemma Atoi_minus_1: "Atoi ''-1'' = Inr (- 1)"
  by (simp add: Atoi_def)

lemma parseIntQueryParam_absent: "map_of q key = None \<Longrightarrow> parseIntQueryParam q key d = Inr d"
  by (simp add: parseIntQueryParam_def query_Get_def)

lemma GetAll_negative_offset:
  "offset < 0 \<Longrightarrow> GetAll r sf limit offset = Inl ''slice bounds out of range''"
  by (simp add: GetAll_def Let_def slice_expr_def)

lemma GetAll_negative_limit:
  assumes "0 \<le> offset" "offset < int (length (selected_ids r sf))" "offset < 2 ^ 63"
    and "limit < 0" "- (2 ^ 63) \<le> limit"
  shows "GetAll r sf limit offset = Inl ''slice bounds out of range''"
proof -
  have w: "wrap64 (offset + limit) = offset + limit"
    using assms by (intro wrap64_id) simp_all
  show ?thesis using assms by (simp add: GetAll_def Let_def slice_expr_def w)
qed

lemma one_task_repository:
  "allTasksIDs (snd (Create NewTaskRepository \<lparr>ID = 0, Title = ''t'', Status = ''new''\<rparr>)) = [1]"
  "selected_ids (snd (Create NewTaskRepository \<lparr>ID = 0, Title = ''t'', Status = ''new''\<rparr>)) '''' = [1]"
  by (simp_all add: Create_def NewTaskRepository_def Let_def wrap64_def selected_ids_def)

section \<open>Level policy: claims\<close>

text \<open>
  C9. \<open>ParseLevel\<close> is total and case-insensitive: the level of a string is the level
  of its lower-cased form; a recognised name gets its severity and every other input
  gets Info; the result is always one of the seven levels, never an error. For a string
  with a byte outside ASCII the lower-cased form comes from the library's Unicode path,
  of which one fact is used: lower-casing its result again changes nothing.
\<close>

theorem ParseLevel_total_case_insensitive:
  assumes "\<not> isASCII s \<Longrightarrow> ToLower mapRunes (mapRunes s) = mapRunes s"
  shows "ParseLevel mapRunes s = ParseLevel mapRunes (ToLower mapRunes s)
   \<and> ParseLevel mapRunes s
       = (case map_of level_table (ToLower mapRunes s) of Some v \<Rightarrow> v | None \<Rightarrow> InfoLevel)
   \<and> ParseLevel mapRunes s
       \<in> {DebugLevel, InfoLevel, WarnLevel, ErrorLevel, DPanicLevel, PanicLevel, FatalLevel}"
proof -
  have idem: "ToLower mapRunes (ToLower mapRunes s) = ToLower mapRunes s"
  proof (cases "isASCII s")
    case True
    then show ?thesis by (rule ToLower_ascii_idem)
  next
    case False
    with assms show ?thesis by (simp add: ToLower_def [of mapRunes s])
  qed
  have a: "ParseLevel mapRunes s = ParseLevel mapRunes (ToLower mapRunes s)"
    by (simp add: ParseLevel_def idem)
  have b: "ParseLevel mapRunes s
       = (case map_of level_table (ToLower mapRunes s) of Some v \<Rightarrow> v | None \<Rightarrow> InfoLevel)"
    by (rule ParseLevel_table)
  have c: "ParseLevel mapRunes s
       \<in> {DebugLevel, InfoLevel, WarnLevel, ErrorLevel, DPanicLevel, PanicLevel, FatalLevel}"
    by (simp add: ParseLevel_def Let_def)
  from a b c show ?thesis by blast
qed

theorem ParseLevel_total_case_insensitive_witness:
  "ParseLevel mapRunes_sample ''WaRNing'' = ParseLevel mapRunes_sample ''warning''
   \<and> ParseLevel mapRunes_sample ''WaRNing'' = WarnLevel
   \<and> ParseLevel mapRunes_sample ''verbose'' = InfoLevel
   \<and> ParseLevel mapRunes_sample ''FATAL'' = FatalLevel
   \<and> \<not> isASCII (''PAN'' @ [CHR 0xC4, CHR 0xB0] @ ''C'')
   \<and> ToLower mapRunes_sample (''PAN'' @ [CHR 0xC4, CHR 0xB0] @ ''C'') = ''panic''
   \<and> ParseLevel mapRunes_sample (''PAN'' @ [CHR 0xC4, CHR 0xB0] @ ''C'') = PanicLevel
   \<and> ParseLevel mapRunes_sample (''PAN'' @ [CHR 0xC4, CHR 0xB0] @ ''C'')
       = ParseLevel mapRunes_sample ''panic''"
proof -
  let ?p = "''PAN'' @ [CHR 0xC4, CHR 0xB0] @ ''C''"
  have na: "\<not> isASCII ?p" by (simp add: isASCII_def)
  have lp: "mapRunes_sample ?p = ''panic''" by (simp add: ToLower_eval)
  have fp: "ToLower mapRunes_sample (mapRunes_sample ?p) = mapRunes_sample ?p"
    by (simp add: lp) (simp add: ToLower_eval)
  have tp: "ToLower mapRunes_sample ?p = ''panic''"
    using na lp by (simp add: ToLower_def)
  have t1: "ToLower mapRunes_sample ''WaRNing'' = ''warning''"
    and t2: "ToLower mapRunes_sample ''verbose'' = ''verbose''"
    and t3: "ToLower mapRunes_sample ''FATAL'' = ''fatal''"
    by (simp_all add: ToLower_eval)
  have asc: "isASCII ''WaRNing''" "isASCII ''verbose''" "isASCII ''FATAL''"
    by (simp_all add: isASCII_def)
  note w = ParseLevel_total_case_insensitive [of _ mapRunes_sample]
  from w [of ?p] fp have "ParseLevel mapRunes_sample ?p
      = (case map_of level_table (ToLower mapRunes_sample ?p) of Some v \<Rightarrow> v | None \<Rightarrow> InfoLevel)"
    and "ParseLevel mapRunes_sample ?p = ParseLevel mapRunes_sample (ToLower mapRunes_sample ?p)"
    by blast+
  then have p: "ParseLevel mapRunes_sample ?p = PanicLevel"
    "ParseLevel mapRunes_sample ?p = ParseLevel mapRunes_sample ''panic''"
    by (simp_all only: tp) (simp add: level_table_def)
  from w [of "''WaRNing''"] asc have "ParseLevel mapRunes_sample ''WaRNing''
      = (case map_of level_table (ToLower mapRunes_sample ''WaRNing'') of Some v \<Rightarrow> v | None \<Rightarrow> InfoLevel)"
    and "ParseLevel mapRunes_sample ''WaRNing'' = ParseLevel mapRunes_sample (ToLower mapRunes_sample ''WaRNing'')"
    by blast+
  then have a: "ParseLevel mapRunes_sample ''WaRNing'' = WarnLevel"
    "ParseLevel mapRunes_sample ''WaRNing'' = ParseLevel mapRunes_sample ''warning''"
    by (simp_all only: t1) (simp add: level_table_def)
  from w [of "''verbose''"] asc have "ParseLevel mapRunes_sample ''verbose''
      = (case map_of level_table (ToLower mapRunes_sample ''verbose'') of Some v \<Rightarrow> v | None \<Rightarrow> InfoLevel)"
    by blast
  then have b: "ParseLevel mapRunes_sample ''verbose'' = InfoLevel"
    by (simp only: t2) (simp add: level_table_def)
  from w [of "''FATAL''"] asc have "ParseLevel mapRunes_sample ''FATAL''
      = (case map_of level_table (ToLower mapRunes_sample ''FATAL'') of Some v \<Rightarrow> v | None \<Rightarrow> InfoLevel)"
    by blast
  then have c: "ParseLevel mapRunes_sample ''FATAL'' = FatalLevel"
    by (simp only: t3) (simp add: level_table_def)
  from a b c p na tp show ?thesis by blast
qed

section \<open>Enqueue: claims\<close>

text \<open>
  C3. The enqueue step of a leveled emit is a total function of the state (it neither
  waits nor fails): when the channel has room the encoded line is queued and nothing is
  written to standard error; when the channel is full the queue is left as it is and the
  line \<open>WARNING: Logger channel is full. Log message dropped: <line>\<close> is appended
  to standard error, once. Other channels and standard output are untouched, and Debug,
  Info, Warn and Error return normally.
\<close>

theorem log_enqueue_never_blocks:
  fixes l now level msg flds w
  defines "c \<equiv> logChan l"
  defines "line \<equiv> log_line now level msg (elems w (contextFields l) @ flds)"
  defines "w' \<equiv> log l now level msg flds w"
  shows "(length (chans w c) < chanCap w c \<longrightarrow>
            chans w' c = chans w c @ [line] \<and> stderr w' = stderr w)
       \<and> (\<not> length (chans w c) < chanCap w c \<longrightarrow>
            chans w' c = chans w c
            \<and> stderr w' = stderr w @ ''WARNING: Logger channel is full. Log message dropped: '' @ line @ newline)
       \<and> (\<forall>c'. c' \<noteq> c \<longrightarrow> chans w' c' = chans w c')
       \<and> stdout w' = stdout w
       \<and> fst (Debug l now msg flds w) = Returns \<and> fst (Info l now msg flds w) = Returns
       \<and> fst (Warn l now msg flds w) = Returns \<and> fst (Error l now msg flds w) = Returns"
  unfolding c_def line_def w'_def
  by (simp add: log_chans log_stderr log_frame dropped_warning_def Debug_def Info_def Warn_def
      Error_def)

theorem log_enqueue_never_blocks_witness:
  "chans (log (example_logger InfoLevel) ''t'' ''INFO'' ''a'' [] example_world) 0 = [''t INFO a'' @ newline]
   \<and> chans (log (example_logger InfoLevel) ''t'' ''INFO'' ''b'' []
         (log (example_logger InfoLevel) ''t'' ''INFO'' ''a'' [] example_world)) 0 = [''t INFO a'' @ newline]
   \<and> stderr (log (example_logger InfoLevel) ''t'' ''INFO'' ''b'' []
         (log (example_logger InfoLevel) ''t'' ''INFO'' ''a'' [] example_world))
       = ''WARNING: Logger channel is full. Log message dropped: t INFO b'' @ newline @ newline"
proof -
  let ?l = "example_logger InfoLevel"
  let ?w1 = "log ?l ''t'' ''INFO'' ''a'' [] example_world"
  have room: "length (chans example_world (logChan ?l)) < chanCap example_world (logChan ?l)"
    by (simp add: example_simps)
  from room log_enqueue_never_blocks [of example_world ?l "''t''" "''INFO''" "''a''" "[]"]
  have q1: "chans ?w1 0 = [''t INFO a'' @ newline]" and e1: "stderr ?w1 = []"
    by (simp_all add: example_simps log_line_def)
  have cap1: "chanCap ?w1 0 = 1"
    by (simp add: log_frame example_simps)
  have full: "\<not> length (chans ?w1 (logChan ?l)) < chanCap ?w1 (logChan ?l)"
    by (simp add: example_simps q1 cap1)
  from full log_enqueue_never_blocks [of ?w1 ?l "''t''" "''INFO''" "''b''" "[]"]
  have "chans (log ?l ''t'' ''INFO'' ''b'' [] ?w1) 0 = [''t INFO a'' @ newline]"
    and "stderr (log ?l ''t'' ''INFO'' ''b'' [] ?w1)
       = ''WARNING: Logger channel is full. Log message dropped: t INFO b'' @ newline @ newline"
    by (simp_all add: example_simps q1 e1 log_line_def)
  with q1 show ?thesis by simp
qed

section \<open>Panic: claims\<close>

text \<open>
  C4, as stated, at the threshold Fatal: \<open>Panic\<close> returns normally and the state is
  what it was; no record, no panic.
\<close>

theorem Panic_below_threshold_counterexample:
  "Panic (example_logger FatalLevel) ''t'' ''boom'' [] example_world = (Returns, example_world)"
  by (simp add: Panic_def example_simps FatalLevel_def PanicLevel_def)

text \<open>
  C4, amended. For every threshold up to and including Panic and every message,
  \<open>Panic\<close> hands the record to \<^verbatim>\<open>log\<close> and then panics with the message; at a
  threshold above Panic the call returns normally and changes nothing.
\<close>

theorem Panic_emits_then_panics:
  "(Level (cfg l) \<le> PanicLevel \<longrightarrow>
       Panic l now msg flds w = (Panics msg, log l now ''PANIC'' msg flds w))
   \<and> (\<not> Level (cfg l) \<le> PanicLevel \<longrightarrow> Panic l now msg flds w = (Returns, w))"
  by (simp add: Panic_def)

theorem Panic_emits_then_panics_witness:
  "fst (Panic (example_logger DebugLevel) ''t'' ''boom'' [] example_world) = Panics ''boom''
   \<and> chans (snd (Panic (example_logger DebugLevel) ''t'' ''boom'' [] example_world)) 0
       = [''t PANIC boom'' @ newline]
   \<and> Panic (example_logger FatalLevel) ''t'' ''boom'' [] example_world = (Returns, example_world)"
  using Panic_emits_then_panics [of "example_logger DebugLevel" "''t''" "''boom''" "[]" example_world]
    Panic_emits_then_panics [of "example_logger FatalLevel" "''t''" "''boom''" "[]" example_world]
  by (simp add: example_simps DebugLevel_def PanicLevel_def FatalLevel_def log_chans log_line_def)


section \<open>Field rendering: claims\<close>

text \<open>
  C7, as stated, on an Info call with the fields \<open>a, 1, orphan\<close>: the trailing element
  is in the encoded line, as a key followed by \<open>=\<close>.
\<close>

theorem odd_trailing_field_counterexample:
  "chans (snd (Info (example_logger InfoLevel) ''t'' ''m''
       [VString ''a'', VString ''1'', VString ''orphan''] example_world)) 0
     = [''t INFO m a=1 orphan='' @ newline]"
  by (simp add: Info_def example_simps log_chans log_line_def)

text \<open>
  C7, amended. After an even number of elements, a trailing element is taken as a key
  without a value: a string is written as a blank, the key and \<open>=\<close> with nothing after
  it, anything else leaves the separating blank only. A pair whose key is not a string is
  skipped: the blank is written, the key and the value are not, and the rendering goes
  on with the rest.
\<close>

theorem log_fields_odd_tail_and_non_string_key:
  assumes "even (length kvs)"
  shows "log_fields sb (kvs @ [VString key]) = log_fields sb kvs @ '' '' @ key @ ''=''
       \<and> (\<not> is_string t \<longrightarrow> log_fields sb (kvs @ [t]) = log_fields sb kvs @ '' '')
       \<and> (\<not> is_string k \<longrightarrow>
            log_fields sb (kvs @ k # v # rest) = log_fields (log_fields sb kvs @ '' '') rest)"
  using assms by (simp add: log_fields_even_append log_fields_non_string)

theorem log_fields_odd_tail_and_non_string_key_witness:
  "even (length [VString ''a'', VInt 1])
   \<and> log_fields ''m'' ([VString ''a'', VInt 1] @ [VString ''orphan'']) = ''m a=1 orphan=''
   \<and> log_fields ''m'' ([VString ''a'', VInt 1] @ [VInt 7]) = ''m a=1 ''
   \<and> log_fields ''m'' ([VString ''a'', VInt 1] @ VInt 7 # VString ''x'' # [VString ''b'', VBool True])
        = ''m a=1  b=true''"
  using log_fields_odd_tail_and_non_string_key
    [where kvs = "[VString ''a'', VInt 1]" and sb = "''m''" and key = "''orphan''"
       and t = "VInt 7" and k = "VInt 7" and v = "VString ''x''"
       and rest = "[VString ''b'', VBool True]"]
  by (simp add: FormatInt_def FormatUint.simps FormatBool_def)

section \<open>Drain on cancellation: claims\<close>

text \<open>
  C2. A writer is built on a context that is not yet cancelled; any history of log
  calls, worker steps and cancellations of other contexts follows; then the context is
  cancelled and only the worker runs. Whatever the outer select takes before it takes the
  cancellation case, once it does and the inner loop has had one pass for each queued
  record and one more, the worker has returned, queue and batch are empty, and standard
  output is what it was at cancellation followed by the batch and the queued records in
  order; that is, every line the history queued, once each, in the order of the calls.
\<close>

theorem drain_delivers_every_queued_record:
  assumes new: "NewAsyncLogger ctx cf opts w0 = Inr (l, w1)"
    and fresh: "\<not> ctxDone w0 ctx"
    and hist: "list_all (before_cancel ctx l) es"
    and chs: "CtxDone \<notin> set chs"
    and ds: "length (chans (exec es w1) (logChan l)) < length ds"
  shows "w_pc (workers (run l (chs @ CtxDone # ds) (cancel ctx (exec es w1))) (logChan l)) = Returned
    \<and> chans (run l (chs @ CtxDone # ds) (cancel ctx (exec es w1))) (logChan l) = []
    \<and> batch (workers (run l (chs @ CtxDone # ds) (cancel ctx (exec es w1))) (logChan l)) = []
    \<and> stdout (run l (chs @ CtxDone # ds) (cancel ctx (exec es w1)))
        = stdout (exec es w1) @ batch (workers (exec es w1) (logChan l))
            @ concat (chans (exec es w1) (logChan l))
    \<and> stdout (run l (chs @ CtxDone # ds) (cancel ctx (exec es w1)))
        = stdout w0 @ concat (accepted (logChan l) es w1)"
proof -
  let ?c = "logChan l"
  let ?w2 = "exec es w1"
  let ?w3 = "cancel ctx ?w2"
  note n = NewAsyncLogger_Inr [OF new]
  have h: "in_flight ?c ?w2 = in_flight ?c w1 @ concat (accepted ?c es w1)
     \<and> w_pc (workers ?w2 ?c) = Selecting \<and> \<not> ctxDone ?w2 ctx \<and> w_ctx (workers ?w2 ?c) = ctx"
    using fresh hist by (intro history_in_flight) (simp_all add: n(2-))
  have s3: "w_pc (workers ?w3 ?c) = Selecting" "ctxDone ?w3 (w_ctx (workers ?w3 ?c))"
    "length (chans ?w3 ?c) < length ds" "in_flight ?c ?w3 = in_flight ?c ?w2"
    using h ds by (simp_all add: cancel_def in_flight_def)
  have f1: "in_flight ?c w1 = stdout w0" by (simp add: in_flight_def n(2-))
  from drain_after_cancel [OF s3(1) s3(2) chs s3(3)] s3(4) h f1
  show ?thesis by (simp add: in_flight_def)
qed

theorem drain_delivers_every_queued_record_witness:
  "case NewAsyncLogger 0 \<lparr>Level = InfoLevel, IsProduction = False\<rparr> [WithBufferSize 1] (init_world max) of
     Inl e \<Rightarrow> False
   | Inr (l, w1) \<Rightarrow>
       stdout (run l ([Tick] @ CtxDone # [Tick, Tick, Tick])
          (cancel 0 (exec [ELog l ''t1'' ''INFO'' ''a'' [], EWork l Recv,
                           ELog l ''t2'' ''INFO'' ''b'' [], ELog l ''t3'' ''WARN'' ''c'' [],
                           ELog l ''t4'' ''INFO'' ''d'' []] w1)))
       = ''t1 INFO a'' @ newline @ ''t2 INFO b'' @ newline @ ''t3 WARN c'' @ newline"
proof -
  define cf where "cf = \<lparr>Level = InfoLevel, IsProduction = False\<rparr>"
  define w0 where "w0 = init_world max"
  obtain l w1 where new: "NewAsyncLogger 0 cf [WithBufferSize 1] w0 = Inr (l, w1)"
    by (simp add: NewAsyncLogger_def Let_def maxInt_def)
  define es where "es = [ELog l ''t1'' ''INFO'' ''a'' [], EWork l Recv,
                           ELog l ''t2'' ''INFO'' ''b'' [], ELog l ''t3'' ''WARN'' ''c'' [],
                           ELog l ''t4'' ''INFO'' ''d'' []]"
  note n = NewAsyncLogger_Inr [OF new]
  have lc: "logChan l = 0" using n(1) by (simp add: w0_def init_world_def)
  have bs: "bufferSize l = 1" using new by (auto simp: NewAsyncLogger_def Let_def maxInt_def split: if_splits)
  have q1: "chans w1 0 = []" "chanCap w1 0 = 2" "workers w1 0 = \<lparr>w_ctx = 0, batch = [], w_pc = Selecting\<rparr>"
    using n(5,6,7) lc bs by simp_all
  have fresh: "\<not> ctxDone w0 0" by (simp add: w0_def init_world_def)
  have hist: "list_all (before_cancel 0 l) es" by (simp add: es_def)
  have chs: "CtxDone \<notin> set [Tick]" by simp
  have acc: "accepted 0 es w1 = [''t1 INFO a'' @ newline, ''t2 INFO b'' @ newline, ''t3 WARN c'' @ newline]"
    using q1 lc bs n(3)
    by (simp add: es_def log_chans log_frame run_step_def Let_def receive_def flush_def
        log_line_def example_simps)
  have len: "length (chans (exec es w1) (logChan l)) < length [Tick, Tick, Tick]"
    using q1 lc bs n(3)
    by (simp add: es_def log_chans log_frame run_step_def Let_def receive_def flush_def)
  from drain_delivers_every_queued_record [OF new fresh hist chs len]
  have "stdout (run l ([Tick] @ CtxDone # [Tick, Tick, Tick]) (cancel 0 (exec es w1)))
       = stdout w0 @ concat (accepted (logChan l) es w1)"
    by blast
  with acc lc
  have "stdout (run l ([Tick] @ CtxDone # [Tick, Tick, Tick]) (cancel 0 (exec es w1)))
       = ''t1 INFO a'' @ newline @ ''t2 INFO b'' @ newline @ ''t3 WARN c'' @ newline"
    by (simp add: w0_def init_world_def)
  then show ?thesis using new by (simp add: cf_def w0_def es_def)
qed

section \<open>Threshold: claims\<close>

text \<open>
  C5, as stated, at threshold Warn with the queue full: a Warn call passes the threshold
  and yet no record is queued; the queue is what it was and the line goes to standard
  error.
\<close>

theorem leveled_emit_full_queue_counterexample:
  "Level (cfg (example_logger WarnLevel)) \<le> severity MWarn
   \<and> chans (snd (call MWarn (example_logger WarnLevel) ''t1'' ''a'' [] example_world)) 0
       = [''t1 WARN a'' @ newline]
   \<and> chans (snd (call MWarn (example_logger WarnLevel) ''t2'' ''b'' []
         (snd (call MWarn (example_logger WarnLevel) ''t1'' ''a'' [] example_world)))) 0
       = [''t1 WARN a'' @ newline]
   \<and> stderr (snd (call MWarn (example_logger WarnLevel) ''t2'' ''b'' []
         (snd (call MWarn (example_logger WarnLevel) ''t1'' ''a'' [] example_world))))
       = ''WARNING: Logger channel is full. Log message dropped: t2 WARN b'' @ newline @ newline"
proof -
  let ?l = "example_logger WarnLevel"
  let ?w1 = "log ?l ''t1'' ''WARN'' ''a'' [] example_world"
  have q1: "chans ?w1 0 = [''t1 WARN a'' @ newline]" and e1: "stderr ?w1 = []"
    and k1: "chanCap ?w1 0 = 1"
    by (simp_all add: log_chans log_stderr log_frame example_simps log_line_def)
  have q2: "chans (log ?l ''t2'' ''WARN'' ''b'' [] ?w1) 0 = [''t1 WARN a'' @ newline]"
    by (simp add: log_chans [of ?l _ _ _ _ ?w1] example_simps q1 k1)
  have e2: "stderr (log ?l ''t2'' ''WARN'' ''b'' [] ?w1)
       = ''WARNING: Logger channel is full. Log message dropped: t2 WARN b'' @ newline @ newline"
    by (simp add: log_stderr [of ?l _ _ _ _ ?w1] example_simps q1 k1 e1 log_line_def
        dropped_warning_def)
  show ?thesis
    using q1 q2 e2 by (simp add: Warn_def example_simps WarnLevel_def)
qed

text \<open>
  C5, amended. A leveled call at severity \<open>s\<close> on a logger with threshold \<open>T\<close> builds
  one record (time, level text, message, context fields, call fields) and runs the
  enqueue step on it exactly when \<open>T \<le> s\<close>: with room in the queue exactly that line is
  added to it, with the queue full nothing is added and the line goes to standard error.
  What follows the record is the operation's own (return, panic, exit). When \<open>T \<le> s\<close>
  does not hold the call returns normally and the state is what it was. For the sink: if
  the writer is cancelled and drained after the call, standard output is what was
  written, batched and queued before the call, followed by the call's line exactly when
  \<open>T \<le> s\<close> and the queue had room. In particular, on a writer built with threshold
  Warn, Debug and Info change nothing, and after a Warn and an Error call, cancellation
  and drain, the sink has received exactly the Warn line and the Error line.
\<close>

theorem leveled_emit_iff_threshold:
  "(\<not> Level (cfg l) \<le> severity m \<longrightarrow> call m l now msg flds w = (Returns, w))
   \<and> (Level (cfg l) \<le> severity m \<longrightarrow>
        call m l now msg flds w
          = (after_record m (cfg l) msg,
             enqueue (logChan l)
               (log_line now (level_text m) msg (elems w (contextFields l) @ flds))
               (snd (append_slice (contextFields l) flds w))))
   \<and> (Level (cfg l) \<le> severity m \<and> length (chans w (logChan l)) < chanCap w (logChan l) \<longrightarrow>
        chans (snd (call m l now msg flds w)) (logChan l)
          = chans w (logChan l) @ [log_line now (level_text m) msg (elems w (contextFields l) @ flds)]
        \<and> stderr (snd (call m l now msg flds w)) = stderr w)
   \<and> (Level (cfg l) \<le> severity m \<and> \<not> length (chans w (logChan l)) < chanCap w (logChan l) \<longrightarrow>
        chans (snd (call m l now msg flds w)) (logChan l) = chans w (logChan l)
        \<and> stderr (snd (call m l now msg flds w))
            = stderr w @ dropped_warning
                (log_line now (level_text m) msg (elems w (contextFields l) @ flds)))
   \<and> (logChan lw = logChan l \<and> w_pc (workers w (logChan l)) = Selecting
        \<and> CtxDone \<notin> set chs \<and> length (chans w (logChan l)) + 1 < length ds \<longrightarrow>
       stdout (run lw (chs @ CtxDone # ds)
            (cancel (w_ctx (workers w (logChan l))) (snd (call m l now msg flds w))))
         = stdout w @ batch (workers w (logChan l)) @ concat (chans w (logChan l))
           @ (if Level (cfg l) \<le> severity m \<and> length (chans w (logChan l)) < chanCap w (logChan l)
              then log_line now (level_text m) msg (elems w (contextFields l) @ flds) else []))
   \<and> (NewAsyncLogger ctx cf opts w0 = Inr (l0, w1) \<and> Level cf = WarnLevel \<and> \<not> ctxDone w0 ctx
        \<and> CtxDone \<notin> set chs \<and> 2 < length ds \<longrightarrow>
       call MDebug l0 t1 m1 f1 w1 = (Returns, w1)
       \<and> call MInfo l0 t2 m2 f2 w1 = (Returns, w1)
       \<and> stdout (run l0 (chs @ CtxDone # ds)
            (cancel ctx (snd (Error l0 t4 m4 f4 (snd (Warn l0 t3 m3 f3
               (snd (Info l0 t2 m2 f2 (snd (Debug l0 t1 m1 f1 w1))))))))))
          = stdout w0 @ log_line t3 ''WARN'' m3 f3 @ log_line t4 ''ERROR'' m4 f4)"
proof -
  let ?c = "logChan l"
  let ?line = "log_line now (level_text m) msg (elems w (contextFields l) @ flds)"
  have N: "\<not> Level (cfg l) \<le> severity m \<longrightarrow> call m l now msg flds w = (Returns, w)"
    by (simp add: call_disabled)
  have E: "Level (cfg l) \<le> severity m \<longrightarrow>
        call m l now msg flds w
          = (after_record m (cfg l) msg,
             enqueue ?c ?line (snd (append_slice (contextFields l) flds w)))"
    by (simp add: call_enabled log_eq)
  have R: "Level (cfg l) \<le> severity m \<and> length (chans w ?c) < chanCap w ?c \<longrightarrow>
        chans (snd (call m l now msg flds w)) ?c = chans w ?c @ [?line]
        \<and> stderr (snd (call m l now msg flds w)) = stderr w"
    by (simp add: call_enabled log_chans log_stderr)
  have F: "Level (cfg l) \<le> severity m \<and> \<not> length (chans w ?c) < chanCap w ?c \<longrightarrow>
        chans (snd (call m l now msg flds w)) ?c = chans w ?c
        \<and> stderr (snd (call m l now msg flds w)) = stderr w @ dropped_warning ?line"
    by (simp add: call_enabled log_chans log_stderr)
  have S: "logChan lw = ?c \<and> w_pc (workers w ?c) = Selecting
        \<and> CtxDone \<notin> set chs \<and> length (chans w ?c) + 1 < length ds \<longrightarrow>
       stdout (run lw (chs @ CtxDone # ds)
            (cancel (w_ctx (workers w ?c)) (snd (call m l now msg flds w))))
         = stdout w @ batch (workers w ?c) @ concat (chans w ?c)
           @ (if Level (cfg l) \<le> severity m \<and> length (chans w ?c) < chanCap w ?c
              then ?line else [])"
    using call_drained [of lw l w chs ds m now msg flds] by blast
  have C: "call MDebug l0 t1 m1 f1 w1 = (Returns, w1)
       \<and> call MInfo l0 t2 m2 f2 w1 = (Returns, w1)
       \<and> stdout (run l0 (chs @ CtxDone # ds)
            (cancel ctx (snd (Error l0 t4 m4 f4 (snd (Warn l0 t3 m3 f3
               (snd (Info l0 t2 m2 f2 (snd (Debug l0 t1 m1 f1 w1))))))))))
          = stdout w0 @ log_line t3 ''WARN'' m3 f3 @ log_line t4 ''ERROR'' m4 f4"
    if new: "NewAsyncLogger ctx cf opts w0 = Inr (l0, w1)" and lv: "Level cf = WarnLevel"
      and fresh: "\<not> ctxDone w0 ctx" and chs: "CtxDone \<notin> set chs" and ds: "2 < length ds"
  proof -
    let ?c = "logChan l0"
    note n = NewAsyncLogger_Inr [OF new]
    have T: "Level (cfg l0) = WarnLevel" using n(2) lv by simp
    have nd: "call MDebug l0 t1 m1 f1 w1 = (Returns, w1)"
      and ni: "call MInfo l0 t2 m2 f2 w1 = (Returns, w1)"
      by (simp_all add: Info_def Debug_def T WarnLevel_def InfoLevel_def DebugLevel_def)
    have noop: "snd (Info l0 t2 m2 f2 (snd (Debug l0 t1 m1 f1 w1))) = w1"
      by (simp add: Info_def Debug_def T WarnLevel_def InfoLevel_def DebugLevel_def)
    let ?wa = "log l0 t3 ''WARN'' m3 f3 w1"
    let ?wb = "log l0 t4 ''ERROR'' m4 f4 ?wa"
    have cap: "2 \<le> chanCap w1 ?c" using n(4) n(6) by simp
    have qa: "chans ?wa ?c = [log_line t3 ''WARN'' m3 f3]"
      using cap by (simp add: log_chans n(5) n(3) elems_nil_slice)
    have capa: "chanCap ?wa ?c = chanCap w1 ?c" by (simp add: log_frame)
    have rooma: "length (chans ?wa ?c) < chanCap ?wa ?c"
      using cap by (simp only: qa capa) simp
    have qb: "chans ?wb ?c = [log_line t3 ''WARN'' m3 f3, log_line t4 ''ERROR'' m4 f4]"
      using log_queued [OF rooma, of t4 "''ERROR''" m4 f4]
      by (simp only: qa n(3) elems_nil_slice) simp
    have emit: "snd (Error l0 t4 m4 f4 (snd (Warn l0 t3 m3 f3 w1))) = ?wb"
      by (simp add: Warn_def Error_def T WarnLevel_def ErrorLevel_def)
    let ?w3 = "cancel ctx ?wb"
    have wk: "workers ?wb = workers w1" "stdout ?wb = stdout w1" by (simp_all add: log_frame)
    have s3: "w_pc (workers ?w3 ?c) = Selecting" "ctxDone ?w3 (w_ctx (workers ?w3 ?c))"
      "length (chans ?w3 ?c) < length ds"
      using ds by (simp_all add: cancel_def wk n(7) qb)
    have fl: "in_flight ?c ?w3 = stdout w0 @ log_line t3 ''WARN'' m3 f3 @ log_line t4 ''ERROR'' m4 f4"
      by (simp add: in_flight_cancel) (simp add: in_flight_def wk n(7) n(8) qb)
    from drain_after_cancel [OF s3(1) s3(2) chs s3(3)] fl
    have "stdout (run l0 (chs @ CtxDone # ds) ?w3)
          = stdout w0 @ log_line t3 ''WARN'' m3 f3 @ log_line t4 ''ERROR'' m4 f4"
      by simp
    then show ?thesis using nd ni by (simp add: noop emit)
  qed
  from N E R F S C show ?thesis by blast
qed

theorem leveled_emit_iff_threshold_witness:
  "call MInfo (example_logger WarnLevel) ''t'' ''i'' [] example_world = (Returns, example_world)
   \<and> fst (call MPanic (example_logger WarnLevel) ''t'' ''p'' [] example_world) = Panics ''p''
   \<and> chans (snd (call MWarn (example_logger WarnLevel) ''t'' ''w'' [] example_world)) 0
       = [''t WARN w'' @ newline]
   \<and> chans (snd (call MWarn (example_logger WarnLevel) ''t2'' ''b'' []
         (log (example_logger WarnLevel) ''t1'' ''WARN'' ''a'' [] example_world))) 0
       = [''t1 WARN a'' @ newline]
   \<and> stdout (run (fst small_writer) ([Tick] @ CtxDone # [Tick, Tick])
        (cancel (w_ctx (workers (snd small_writer) 0))
           (snd (call MError (fst small_writer) ''t'' ''e'' [] (snd small_writer)))))
       = ''t ERROR e'' @ newline
   \<and> stdout (run (fst small_writer) ([Tick] @ CtxDone # [Tick, Tick])
        (cancel (w_ctx (workers (snd small_writer) 0))
           (snd (call MDebug (fst small_writer) ''t'' ''d'' [] (snd small_writer)))))
       = []
   \<and> (case NewAsyncLogger 0 \<lparr>Level = WarnLevel, IsProduction = False\<rparr> [] (init_world max) of
        Inl e \<Rightarrow> False
      | Inr (l0, w1) \<Rightarrow>
          stdout (run l0 ([Tick] @ CtxDone # [Tick, Tick, Tick])
            (cancel 0 (snd (Error l0 ''t4'' ''e'' [] (snd (Warn l0 ''t3'' ''w'' []
               (snd (Info l0 ''t2'' ''i'' [] (snd (Debug l0 ''t1'' ''d'' [] w1))))))))))
          = ''t3 WARN w'' @ newline @ ''t4 ERROR e'' @ newline)"
proof -
  let ?l = "example_logger WarnLevel"
  let ?cf = "\<lparr>Level = WarnLevel, IsProduction = False\<rparr>"
  let ?wf = "log ?l ''t1'' ''WARN'' ''a'' [] example_world"
  let ?s = "fst small_writer"
  let ?sw = "snd small_writer"
  obtain l0 w1 where new: "NewAsyncLogger 0 ?cf [] (init_world max) = Inr (l0, w1)"
    by (simp add: NewAsyncLogger_def Let_def maxInt_def defaultBufferSize_def)
  have hyps: "NewAsyncLogger 0 ?cf [] (init_world max) = Inr (l0, w1) \<and> Level ?cf = WarnLevel
      \<and> \<not> ctxDone (init_world max) 0 \<and> CtxDone \<notin> set [Tick] \<and> 2 < length [Tick, Tick, Tick]"
    using new by (simp add: init_world_def)
  have le: "Level (cfg ?l) \<le> severity MWarn" "Level (cfg ?l) \<le> severity MPanic"
    and nle: "\<not> Level (cfg ?l) \<le> severity MInfo"
    and room: "length (chans example_world (logChan ?l)) < chanCap example_world (logChan ?l)"
    by (simp_all add: example_simps WarnLevel_def InfoLevel_def PanicLevel_def)
  have qf: "chans ?wf 0 = [''t1 WARN a'' @ newline]" and kf: "chanCap ?wf 0 = 1"
    by (simp_all add: log_chans log_frame example_simps log_line_def)
  have full: "\<not> length (chans ?wf (logChan ?l)) < chanCap ?wf (logChan ?l)"
    by (simp only: example_simps qf kf) simp
  \<comment> \<open>below the threshold\<close>
  from leveled_emit_iff_threshold [where m = MInfo and l = ?l and now = "''t''" and msg = "''i''"
      and flds = "[]" and w = example_world, THEN conjunct1] nle
  have a: "call MInfo ?l ''t'' ''i'' [] example_world = (Returns, example_world)"
    by blast
  \<comment> \<open>at or above the threshold: the outcome\<close>
  from leveled_emit_iff_threshold [where m = MPanic and l = ?l and now = "''t''" and msg = "''p''"
      and flds = "[]" and w = example_world, THEN conjunct2, THEN conjunct1] le(2)
  have "call MPanic ?l ''t'' ''p'' [] example_world
      = (after_record MPanic (cfg ?l) ''p'',
         enqueue (logChan ?l)
           (log_line ''t'' (level_text MPanic) ''p'' (elems example_world (contextFields ?l) @ []))
           (snd (append_slice (contextFields ?l) [] example_world)))"
    by blast
  then have b: "fst (call MPanic ?l ''t'' ''p'' [] example_world) = Panics ''p''"
    by (simp only: fst_conv after_record.simps)
  \<comment> \<open>with room\<close>
  from leveled_emit_iff_threshold [where m = MWarn and l = ?l and now = "''t''" and msg = "''w''"
      and flds = "[]" and w = example_world, THEN conjunct2, THEN conjunct2, THEN conjunct1] le(1) room
  have "chans (snd (call MWarn ?l ''t'' ''w'' [] example_world)) (logChan ?l)
     = chans example_world (logChan ?l)
         @ [log_line ''t'' (level_text MWarn) ''w'' (elems example_world (contextFields ?l) @ [])]"
    by blast
  then have c: "chans (snd (call MWarn ?l ''t'' ''w'' [] example_world)) 0
     = [''t WARN w'' @ newline]"
    by (simp add: example_simps log_line_def)
  \<comment> \<open>queue full\<close>
  from leveled_emit_iff_threshold [where m = MWarn and l = ?l and now = "''t2''" and msg = "''b''"
      and flds = "[]" and w = ?wf, THEN conjunct2, THEN conjunct2, THEN conjunct2, THEN conjunct1] le(1) full
  have "chans (snd (call MWarn ?l ''t2'' ''b'' [] ?wf)) (logChan ?l) = chans ?wf (logChan ?l)"
    by blast
  then have d: "chans (snd (call MWarn ?l ''t2'' ''b'' [] ?wf)) 0 = [''t1 WARN a'' @ newline]"
    by (simp only: example_simps qf)
  \<comment> \<open>the sink, after one call\<close>
  have sw: "logChan ?s = 0" "contextFields ?s = nil_slice" "chans ?sw 0 = []"
    "chanCap ?sw 0 = 2" by (simp_all add: small_writer_eq)
  have sw2: "w_pc (workers ?sw 0) = Selecting" "batch (workers ?sw 0) = []" "stdout ?sw = []"
    "Level (cfg ?s) = InfoLevel"
    by (simp_all add: small_writer_def NewAsyncLogger_def Let_def maxInt_def init_world_def)
  have sh: "logChan ?s = logChan ?s \<and> w_pc (workers ?sw (logChan ?s)) = Selecting
        \<and> CtxDone \<notin> set [Tick] \<and> length (chans ?sw (logChan ?s)) + 1 < length [Tick, Tick]"
    by (simp add: sw sw2)
  from leveled_emit_iff_threshold [where m = MError and l = ?s and lw = ?s and now = "''t''"
      and msg = "''e''" and flds = "[]" and w = ?sw and chs = "[Tick]" and ds = "[Tick, Tick]", THEN conjunct2, THEN conjunct2, THEN conjunct2, THEN conjunct2, THEN conjunct1] sh
  have "stdout (run ?s ([Tick] @ CtxDone # [Tick, Tick])
            (cancel (w_ctx (workers ?sw (logChan ?s))) (snd (call MError ?s ''t'' ''e'' [] ?sw))))
         = stdout ?sw @ batch (workers ?sw (logChan ?s)) @ concat (chans ?sw (logChan ?s))
           @ (if Level (cfg ?s) \<le> severity MError
                 \<and> length (chans ?sw (logChan ?s)) < chanCap ?sw (logChan ?s)
              then log_line ''t'' (level_text MError) ''e'' (elems ?sw (contextFields ?s) @ [])
              else [])"
    by blast
  then have e: "stdout (run ?s ([Tick] @ CtxDone # [Tick, Tick])
            (cancel (w_ctx (workers ?sw 0)) (snd (call MError ?s ''t'' ''e'' [] ?sw))))
         = ''t ERROR e'' @ newline"
    by (simp add: sw sw2 elems_nil_slice log_line_def InfoLevel_def ErrorLevel_def)
  from leveled_emit_iff_threshold [where m = MDebug and l = ?s and lw = ?s and now = "''t''"
      and msg = "''d''" and flds = "[]" and w = ?sw and chs = "[Tick]" and ds = "[Tick, Tick]", THEN conjunct2, THEN conjunct2, THEN conjunct2, THEN conjunct2, THEN conjunct1] sh
  have "stdout (run ?s ([Tick] @ CtxDone # [Tick, Tick])
            (cancel (w_ctx (workers ?sw (logChan ?s))) (snd (call MDebug ?s ''t'' ''d'' [] ?sw))))
         = stdout ?sw @ batch (workers ?sw (logChan ?s)) @ concat (chans ?sw (logChan ?s))
           @ (if Level (cfg ?s) \<le> severity MDebug
                 \<and> length (chans ?sw (logChan ?s)) < chanCap ?sw (logChan ?s)
              then log_line ''t'' (level_text MDebug) ''d'' (elems ?sw (contextFields ?s) @ [])
              else [])"
    by blast
  then have f: "stdout (run ?s ([Tick] @ CtxDone # [Tick, Tick])
            (cancel (w_ctx (workers ?sw 0)) (snd (call MDebug ?s ''t'' ''d'' [] ?sw))))
         = []"
    by (simp add: sw sw2 InfoLevel_def DebugLevel_def)
  \<comment> \<open>the writer built at threshold Warn\<close>
  from leveled_emit_iff_threshold [where ctx = 0 and cf = ?cf and opts = "[]"
      and ?w0.0 = "init_world max" and ?l0.0 = l0 and ?w1.0 = w1 and chs = "[Tick]"
      and ds = "[Tick, Tick, Tick]" and ?t1.0 = "''t1''" and ?m1.0 = "''d''" and ?f1.0 = "[]"
      and ?t2.0 = "''t2''" and ?m2.0 = "''i''" and ?f2.0 = "[]"
      and ?t3.0 = "''t3''" and ?m3.0 = "''w''" and ?f3.0 = "[]"
      and ?t4.0 = "''t4''" and ?m4.0 = "''e''" and ?f4.0 = "[]", THEN conjunct2, THEN conjunct2, THEN conjunct2, THEN conjunct2, THEN conjunct2] hyps
  have g: "stdout (run l0 ([Tick] @ CtxDone # [Tick, Tick, Tick])
            (cancel 0 (snd (Error l0 ''t4'' ''e'' [] (snd (Warn l0 ''t3'' ''w'' []
               (snd (Info l0 ''t2'' ''i'' [] (snd (Debug l0 ''t1'' ''d'' [] w1))))))))))
          = stdout (init_world max) @ log_line ''t3'' ''WARN'' ''w'' [] @ log_line ''t4'' ''ERROR'' ''e'' []"
    by blast
  from a b c d e f g show ?thesis
    by (simp add: new) (simp add: init_world_def log_line_def)
qed

section \<open>Queue capacity: claims\<close>

text \<open>
  C1, as stated, on a writer built with the buffer-size option 1: the configured capacity
  is 1, and after two log calls with the worker idle two records are pending.
\<close>

theorem queue_exceeds_option_value_counterexample:
  "bufferSize (fst small_writer) = 1
   \<and> configured_capacity [WithBufferSize 1] = 1
   \<and> length (chans (exec [ELog (fst small_writer) ''t1'' ''INFO'' ''a'' [],
                          ELog (fst small_writer) ''t2'' ''INFO'' ''b'' []] (snd small_writer))
               (logChan (fst small_writer))) = 2"
  by (simp add: configured_capacity_def log_chans log_frame) (simp add: small_writer_eq)

text \<open>
  C1, amended. For a writer built with configured capacity \<open>C\<close> (the positive option
  value, else 4096) the channel has capacity \<open>C + 1\<close>: in every state that log calls,
  worker steps and cancellations lead to, at most \<open>C + 1\<close> records are pending; a log
  call arriving when \<open>C + 1\<close> are pending leaves the queue as it is, and one arriving
  when \<open>C\<close> are pending is queued.
\<close>

theorem queue_bounded_by_channel_capacity:
  assumes new: "NewAsyncLogger ctx cf opts w0 = Inr (l, w1)"
  shows "bufferSize l = configured_capacity opts
    \<and> 0 < configured_capacity opts
    \<and> chans w1 (logChan l) = []
    \<and> chanCap (exec es w1) (logChan l) = nat (configured_capacity opts) + 1
    \<and> length (chans (exec es w1) (logChan l)) \<le> nat (configured_capacity opts) + 1
    \<and> (logChan l' = logChan l
         \<and> length (chans (exec es w1) (logChan l)) = nat (configured_capacity opts) + 1 \<longrightarrow>
        chans (log l' now level msg flds (exec es w1)) (logChan l) = chans (exec es w1) (logChan l))
    \<and> (logChan l' = logChan l
         \<and> length (chans (exec es w1) (logChan l)) = nat (configured_capacity opts) \<longrightarrow>
        length (chans (log l' now level msg flds (exec es w1)) (logChan l))
          = nat (configured_capacity opts) + 1)"
proof -
  let ?c = "logChan l"
  note n = NewAsyncLogger_Inr [OF new]
  have C: "bufferSize l = configured_capacity opts" by (rule NewAsyncLogger_capacity [OF new])
  have pos: "0 < configured_capacity opts" using n(4) C by simp
  have cap1: "chanCap w1 ?c = nat (configured_capacity opts) + 1"
    using n(6) C pos by (simp add: nat_add_distrib)
  have b0: "length (chans w1 ?c) \<le> chanCap w1 ?c" by (simp add: n(5))
  note eb = exec_bounded [OF b0, of es]
  have cap: "chanCap (exec es w1) ?c = nat (configured_capacity opts) + 1"
    using eb cap1 by simp
  have len: "length (chans (exec es w1) ?c) \<le> nat (configured_capacity opts) + 1"
    using eb cap1 by simp
  have rej: "logChan l' = ?c
         \<and> length (chans (exec es w1) ?c) = nat (configured_capacity opts) + 1 \<longrightarrow>
        chans (log l' now level msg flds (exec es w1)) ?c = chans (exec es w1) ?c"
    using cap by (simp add: log_chans)
  have acc: "logChan l' = ?c
         \<and> length (chans (exec es w1) ?c) = nat (configured_capacity opts) \<longrightarrow>
        length (chans (log l' now level msg flds (exec es w1)) ?c)
          = nat (configured_capacity opts) + 1"
    using cap by (simp add: log_chans)
  from C pos n(5) cap len rej acc show ?thesis by blast
qed

theorem queue_bounded_by_channel_capacity_witness:
  "configured_capacity [WithBufferSize 1] = 1
   \<and> length (chans (exec [ELog (fst small_writer) ''t1'' ''INFO'' ''a'' []] (snd small_writer)) 0) = 1
   \<and> length (chans (log (fst small_writer) ''t2'' ''INFO'' ''b'' []
        (exec [ELog (fst small_writer) ''t1'' ''INFO'' ''a'' []] (snd small_writer))) 0) = 2
   \<and> chans (log (fst small_writer) ''t3'' ''INFO'' ''c'' []
        (exec [ELog (fst small_writer) ''t1'' ''INFO'' ''a'' [],
               ELog (fst small_writer) ''t2'' ''INFO'' ''b'' []] (snd small_writer))) 0
     = chans (exec [ELog (fst small_writer) ''t1'' ''INFO'' ''a'' [],
               ELog (fst small_writer) ''t2'' ''INFO'' ''b'' []] (snd small_writer)) 0"
proof -
  let ?l = "fst small_writer"
  let ?w = "snd small_writer"
  let ?e1 = "[ELog ?l ''t1'' ''INFO'' ''a'' []]"
  let ?e2 = "[ELog ?l ''t1'' ''INFO'' ''a'' [], ELog ?l ''t2'' ''INFO'' ''b'' []]"
  note new = small_writer_eq(6)
  have C: "configured_capacity [WithBufferSize 1] = 1" by (simp add: configured_capacity_def)
  have l1: "length (chans (exec ?e1 ?w) 0) = 1"
    apply (simp add: log_chans log_frame)
    apply (simp add: small_writer_eq)
    done
  have l2: "length (chans (exec ?e2 ?w) 0) = 2"
    apply (simp add: log_chans log_frame)
    apply (simp add: small_writer_eq)
    done
  have h1: "logChan ?l = logChan ?l \<and> length (chans (exec ?e1 ?w) (logChan ?l)) = nat (configured_capacity [WithBufferSize 1])"
    using l1 by (simp add: C small_writer_eq(1))
  have h2: "logChan ?l = logChan ?l \<and> length (chans (exec ?e2 ?w) (logChan ?l)) = nat (configured_capacity [WithBufferSize 1]) + 1"
    using l2 by (simp add: C small_writer_eq(1))
  from queue_bounded_by_channel_capacity [OF new, where es = ?e1 and l' = ?l and now = "''t2''"
      and level = "''INFO''" and msg = "''b''" and flds = "[]"] h1
  have a: "length (chans (log ?l ''t2'' ''INFO'' ''b'' [] (exec ?e1 ?w)) (logChan ?l))
          = nat (configured_capacity [WithBufferSize 1]) + 1"
    by blast
  from queue_bounded_by_channel_capacity [OF new, where es = ?e2 and l' = ?l and now = "''t3''"
      and level = "''INFO''" and msg = "''c''" and flds = "[]"] h2
  have b: "chans (log ?l ''t3'' ''INFO'' ''c'' [] (exec ?e2 ?w)) (logChan ?l) = chans (exec ?e2 ?w) (logChan ?l)"
    by blast
  from a b C l1 show ?thesis by (simp add: small_writer_eq(1))
qed

section \<open>Derivation: claims\<close>

text \<open>
  C6. \<open>With\<close> returns a logger with the parent's configuration (threshold), channel
  and writer reference, whose field list is the parent's followed by the new fields, in
  a backing array of its own; the parent's list is what it was. After
  \<open>l.With(fs1).With(fs2)\<close> the grandchild's list is \<open>l\<close>'s followed by \<open>fs1\<close> and
  \<open>fs2\<close>. The three lists stay so whatever is logged afterwards, in any order, through
  \<open>l\<close>, the child, the grandchild or any logger that was there before (each such call
  appends to its own slice, in place when the capacity allows): a record emitted through
  the grandchild has \<open>l\<close>'s fields, \<open>fs1\<close> and \<open>fs2\<close> in this order before the call's
  own, one emitted through the child has \<open>l\<close>'s fields and \<open>fs1\<close> and none of \<open>fs2\<close>,
  one emitted through \<open>l\<close> has \<open>l\<close>'s fields only. The parent's slice is assumed to lie
  in allocated memory.
\<close>

theorem With_copies_parent_and_appends:
  assumes wf: "s_arr (contextFields l) < nextArray w"
    and d1: "With l fs1 w = (l1, w1)"
    and h1: "\<forall>e\<in>set (emitters es1). e = l1 \<or> settled_before w l e"
    and d2: "With l1 fs2 (exec es1 w1) = (l2, w2)"
    and h2: "\<forall>e\<in>set (emitters es2). e = l1 \<or> e = l2 \<or> settled_before w l e"
  shows "cfg l1 = cfg l \<and> logChan l1 = logChan l \<and> writer l1 = writer l
       \<and> cfg l2 = cfg l \<and> logChan l2 = logChan l \<and> writer l2 = writer l
       \<and> elems w1 (contextFields l1) = elems w (contextFields l) @ fs1
       \<and> elems w1 (contextFields l) = elems w (contextFields l)
       \<and> elems (exec es1 w1) (contextFields l1) = elems w (contextFields l) @ fs1
       \<and> elems (exec es1 w1) (contextFields l) = elems w (contextFields l)
       \<and> elems w2 (contextFields l2) = elems w (contextFields l) @ fs1 @ fs2
       \<and> elems w2 (contextFields l1) = elems w (contextFields l) @ fs1
       \<and> elems w2 (contextFields l) = elems w (contextFields l)
       \<and> elems (exec es2 w2) (contextFields l2) = elems w (contextFields l) @ fs1 @ fs2
       \<and> elems (exec es2 w2) (contextFields l1) = elems w (contextFields l) @ fs1
       \<and> elems (exec es2 w2) (contextFields l) = elems w (contextFields l)
       \<and> log l2 now level msg flds (exec es2 w2)
           = enqueue (logChan l)
               (log_line now level msg (elems w (contextFields l) @ fs1 @ fs2 @ flds))
               (snd (append_slice (contextFields l2) flds (exec es2 w2)))
       \<and> log l1 now level msg flds (exec es2 w2)
           = enqueue (logChan l)
               (log_line now level msg (elems w (contextFields l) @ fs1 @ flds))
               (snd (append_slice (contextFields l1) flds (exec es2 w2)))
       \<and> log l now level msg flds (exec es2 w2)
           = enqueue (logChan l)
               (log_line now level msg (elems w (contextFields l) @ flds))
               (snd (append_slice (contextFields l) flds (exec es2 w2)))"
proof -
  let ?p = "contextFields l"
  let ?s1 = "contextFields l1"
  let ?s2 = "contextFields l2"
  let ?P = "elems w ?p"
  let ?v1 = "exec es1 w1"
  let ?v2 = "exec es2 w2"
  note a = With_facts [OF d1 wf]
  have wf1: "s_arr ?s1 < nextArray w1" by (rule a(4))
  have wfp1: "s_arr ?p < nextArray w1" using wf a(5) by simp
  have p1: "elems w1 ?p = ?P" using wf by (rule a(6))
  \<comment> \<open>the first history\<close>
  have c11: "\<forall>e\<in>set (emitters es1). s_arr (contextFields e) \<noteq> s_arr ?s1
      \<or> s_len ?s1 \<le> s_len (contextFields e)"
    using h1 a(3) by (auto simp: settled_before_def)
  have c1p: "\<forall>e\<in>set (emitters es1). s_arr (contextFields e) \<noteq> s_arr ?p
      \<or> s_len ?p \<le> s_len (contextFields e)"
    using h1 a(3) wf by (auto simp: settled_before_def)
  note x1 = exec_elems_other [OF wf1 c11]
  note xp = exec_elems_other [OF wfp1 c1p]
  have v11: "elems ?v1 ?s1 = ?P @ fs1" using x1 a(1) by simp
  have v1p: "elems ?v1 ?p = ?P" using xp p1 by simp
  have wf1': "s_arr ?s1 < nextArray ?v1" using x1 wf1 by simp
  have wfp1': "s_arr ?p < nextArray ?v1" using xp wfp1 by simp
  have n01: "nextArray w \<le> nextArray ?v1" using a(5) x1 by simp
  \<comment> \<open>the second derivation\<close>
  note b = With_facts [OF d2 wf1']
  have wf2: "s_arr ?s2 < nextArray w2" by (rule b(4))
  have e22: "elems w2 ?s2 = ?P @ fs1 @ fs2" using b(1) v11 by simp
  have e21: "elems w2 ?s1 = ?P @ fs1" using b(6) [OF wf1'] v11 by simp
  have e2p: "elems w2 ?p = ?P" using b(6) [OF wfp1'] v1p by simp
  have lt1: "s_arr ?s1 < nextArray w2" using wf1' b(5) by simp
  have ltp: "s_arr ?p < nextArray w2" using wfp1' b(5) by simp
  \<comment> \<open>the second history\<close>
  have c22: "\<forall>e\<in>set (emitters es2). s_arr (contextFields e) \<noteq> s_arr ?s2
      \<or> s_len ?s2 \<le> s_len (contextFields e)"
    using h2 b(3) wf1' n01 by (auto simp: settled_before_def)
  have c21: "\<forall>e\<in>set (emitters es2). s_arr (contextFields e) \<noteq> s_arr ?s1
      \<or> s_len ?s1 \<le> s_len (contextFields e)"
    using h2 b(3) wf1' a(3) by (auto simp: settled_before_def)
  have c2p: "\<forall>e\<in>set (emitters es2). s_arr (contextFields e) \<noteq> s_arr ?p
      \<or> s_len ?p \<le> s_len (contextFields e)"
    using h2 b(3) a(3) wf wfp1' by (auto simp: settled_before_def)
  have v22: "elems ?v2 ?s2 = ?P @ fs1 @ fs2" using exec_elems_other [OF wf2 c22] e22 by simp
  have v21: "elems ?v2 ?s1 = ?P @ fs1" using exec_elems_other [OF lt1 c21] e21 by simp
  have v2p: "elems ?v2 ?p = ?P" using exec_elems_other [OF ltp c2p] e2p by simp
  have g2: "log l2 now level msg flds ?v2
           = enqueue (logChan l) (log_line now level msg (?P @ fs1 @ fs2 @ flds))
               (snd (append_slice ?s2 flds ?v2))"
    using a(2) b(2) by (simp add: log_eq [of l2] v22)
  have g1: "log l1 now level msg flds ?v2
           = enqueue (logChan l) (log_line now level msg (?P @ fs1 @ flds))
               (snd (append_slice ?s1 flds ?v2))"
    using a(2) by (simp add: log_eq [of l1] v21)
  have g0: "log l now level msg flds ?v2
           = enqueue (logChan l) (log_line now level msg (?P @ flds))
               (snd (append_slice ?p flds ?v2))"
    by (simp add: log_eq [of l] v2p)
  from a(2) b(2) a(1) p1 v11 v1p e22 e21 e2p v22 v21 v2p g2 g1 g0 show ?thesis by simp
qed


theorem With_copies_parent_and_appends_witness:
  "let d1 = With roomy_logger [VString ''x'', VInt 7] roomy_world;
       v1 = exec [ELog roomy_logger ''t0'' ''INFO'' ''parent'' [VString ''y'', VInt 9]] (snd d1);
       d2 = With (fst d1) [VString ''c'', VInt 2] v1;
       v2 = exec [ELog (fst d2) ''t1'' ''INFO'' ''grandchild'' [],
                  ELog roomy_logger ''t2'' ''INFO'' ''parent'' [VString ''z'', VInt 3]] (snd d2)
   in elems v1 (contextFields (fst d1)) = [VString ''k'', VInt 1, VString ''x'', VInt 7]
      \<and> elems v2 (contextFields (fst d2))
          = [VString ''k'', VInt 1, VString ''x'', VInt 7, VString ''c'', VInt 2]
      \<and> elems v2 (contextFields (fst d1)) = [VString ''k'', VInt 1, VString ''x'', VInt 7]
      \<and> elems v2 (contextFields roomy_logger) = [VString ''k'', VInt 1]
      \<and> log (fst d2) ''t3'' ''INFO'' ''grandchild'' [] v2
          = enqueue 0 (''t3 INFO grandchild k=1 x=7 c=2'' @ newline)
              (snd (append_slice (contextFields (fst d2)) [] v2))
      \<and> log (fst d1) ''t3'' ''INFO'' ''child'' [] v2
          = enqueue 0 (''t3 INFO child k=1 x=7'' @ newline)
              (snd (append_slice (contextFields (fst d1)) [] v2))"
proof -
  let ?l = roomy_logger
  let ?w = roomy_world
  define d1 where "d1 = With ?l [VString ''x'', VInt 7] ?w"
  define es1 where "es1 = [ELog ?l ''t0'' ''INFO'' ''parent'' [VString ''y'', VInt 9]]"
  define v1 where "v1 = exec es1 (snd d1)"
  define d2 where "d2 = With (fst d1) [VString ''c'', VInt 2] v1"
  define es2 where "es2 = [ELog (fst d2) ''t1'' ''INFO'' ''grandchild'' [],
                  ELog ?l ''t2'' ''INFO'' ''parent'' [VString ''z'', VInt 3]]"
  define v2 where "v2 = exec es2 (snd d2)"
  have wf: "s_arr (contextFields ?l) < nextArray ?w" by (simp add: roomy_simps(1,3))
  have q1: "With ?l [VString ''x'', VInt 7] ?w = (fst d1, snd d1)" by (simp add: d1_def)
  have h1: "\<forall>e\<in>set (emitters es1). e = fst d1 \<or> settled_before ?w ?l e"
    by (simp add: es1_def roomy_simps(5))
  have q2: "With (fst d1) [VString ''c'', VInt 2] (exec es1 (snd d1)) = (fst d2, snd d2)"
    by (simp add: d2_def v1_def)
  have h2: "\<forall>e\<in>set (emitters es2). e = fst d1 \<or> e = fst d2 \<or> settled_before ?w ?l e"
    by (simp add: es2_def roomy_simps(5))
  note t = With_copies_parent_and_appends [OF wf q1 h1 q2 h2, where now = "''t3''"
      and level = "''INFO''" and flds = "[]"]
  have P: "elems ?w (contextFields ?l) = [VString ''k'', VInt 1]" by (rule roomy_simps(4))
  from t [of "''child''"] have "elems (exec es1 (snd d1)) (contextFields (fst d1))
      = elems ?w (contextFields ?l) @ [VString ''x'', VInt 7]"
    by blast
  then have a: "elems v1 (contextFields (fst d1)) = [VString ''k'', VInt 1, VString ''x'', VInt 7]"
    by (simp add: P v1_def)
  from t [of "''child''"] have "elems (exec es2 (snd d2)) (contextFields (fst d2))
      = elems ?w (contextFields ?l) @ [VString ''x'', VInt 7] @ [VString ''c'', VInt 2]"
    by blast
  then have b: "elems v2 (contextFields (fst d2))
      = [VString ''k'', VInt 1, VString ''x'', VInt 7, VString ''c'', VInt 2]"
    by (simp add: P v2_def)
  from t [of "''child''"] have "elems (exec es2 (snd d2)) (contextFields (fst d1))
      = elems ?w (contextFields ?l) @ [VString ''x'', VInt 7]"
    by blast
  then have c: "elems v2 (contextFields (fst d1)) = [VString ''k'', VInt 1, VString ''x'', VInt 7]"
    by (simp add: P v2_def)
  from t [of "''child''"] have "elems (exec es2 (snd d2)) (contextFields ?l)
      = elems ?w (contextFields ?l)"
    by blast
  then have d: "elems v2 (contextFields ?l) = [VString ''k'', VInt 1]"
    by (simp add: P v2_def)
  from t [of "''grandchild''"] have "log (fst d2) ''t3'' ''INFO'' ''grandchild'' [] (exec es2 (snd d2))
      = enqueue (logChan ?l)
          (log_line ''t3'' ''INFO'' ''grandchild''
             (elems ?w (contextFields ?l) @ [VString ''x'', VInt 7] @ [VString ''c'', VInt 2] @ []))
          (snd (append_slice (contextFields (fst d2)) [] (exec es2 (snd d2))))"
    by blast
  then have e: "log (fst d2) ''t3'' ''INFO'' ''grandchild'' [] v2
      = enqueue 0 (''t3 INFO grandchild k=1 x=7 c=2'' @ newline)
          (snd (append_slice (contextFields (fst d2)) [] v2))"
    by (simp add: P v2_def roomy_simps(2) log_line_def FormatInt_def FormatUint.simps)
  from t [of "''child''"] have "log (fst d1) ''t3'' ''INFO'' ''child'' [] (exec es2 (snd d2))
      = enqueue (logChan ?l)
          (log_line ''t3'' ''INFO'' ''child''
             (elems ?w (contextFields ?l) @ [VString ''x'', VInt 7] @ []))
          (snd (append_slice (contextFields (fst d1)) [] (exec es2 (snd d2))))"
    by blast
  then have f: "log (fst d1) ''t3'' ''INFO'' ''child'' [] v2
      = enqueue 0 (''t3 INFO child k=1 x=7'' @ newline)
          (snd (append_slice (contextFields (fst d1)) [] v2))"
    by (simp add: P v2_def roomy_simps(2) log_line_def FormatInt_def FormatUint.simps)
  from a b c d e f show ?thesis
    unfolding Let_def d1_def [symmetric] es1_def [symmetric] v1_def [symmetric]
      d2_def [symmetric] es2_def [symmetric] v2_def [symmetric]
    by blast
qed

section \<open>Sampling: claims\<close>

text \<open>
  C8. Run one generation after the other, the flag is \<open>01\<close> exactly when the counter
  is a multiple of 100 at the check, and the counter is one more afterwards (wrapping at
  64 bits); the token ends in that flag. From the counter 0, of 1000 generations the
  ones numbered 0, 100, ..., 900 are sampled and no other: ten in all, one in every
  hundred, and the counter ends at 1000.
\<close>

theorem sampled_every_100th_generation:
  "fst (generateTraceFlags r) = (if r smod 100 = 0 then ''01'' else ''00'')
   \<and> (fst (generateTraceFlags r) = ''01'') = (r smod 100 = 0)
   \<and> snd (generateTraceFlags r) = wrap64 (r + 1)
   \<and> (- (2 ^ 63) \<le> r \<and> r < 2 ^ 63 - 1 \<longrightarrow> snd (generateTraceFlags r) = r + 1)
   \<and> fst (generateTraceparent hi lo sp r)
       = ''00-'' @ hex16 hi @ hex16 lo @ ''-'' @ hex16 sp @ ''-'' @ fst (generateTraceFlags r)
   \<and> snd (generateTraceparent hi lo sp r) = snd (generateTraceFlags r)
   \<and> fst (sequential_flags 1000 0)
       = map (\<lambda>i. if i mod 100 = 0 then ''01'' else ''00'') [0..<1000]
   \<and> snd (sequential_flags 1000 0) = 1000
   \<and> length (filter (\<lambda>flag. flag = ''01'') (fst (sequential_flags 1000 0))) = 10"
proof -
  have a: "fst (generateTraceFlags r) = (if r smod 100 = 0 then ''01'' else ''00'')"
    and b: "(fst (generateTraceFlags r) = ''01'') = (r smod 100 = 0)"
    and c: "snd (generateTraceFlags r) = wrap64 (r + 1)"
    by (simp_all add: generateTraceFlags_def)
  have d: "- (2 ^ 63) \<le> r \<and> r < 2 ^ 63 - 1 \<longrightarrow> snd (generateTraceFlags r) = r + 1"
    by (simp add: c wrap64_id)
  have e: "fst (generateTraceparent hi lo sp r)
       = ''00-'' @ hex16 hi @ hex16 lo @ ''-'' @ hex16 sp @ ''-'' @ fst (generateTraceFlags r)"
    and f: "snd (generateTraceparent hi lo sp r) = snd (generateTraceFlags r)"
    by (simp_all add: generateTraceparent_def generateTraceID_def generateSpanID_def Let_def
        split: prod.splits)
  have g: "fst (sequential_flags 1000 0)
       = map (\<lambda>i. if i mod 100 = 0 then ''01'' else ''00'') [0..<1000]"
    and h: "snd (sequential_flags 1000 0) = 1000"
    by (simp_all only: sequential_flags_1000 fst_conv snd_conv)
  have p: "((\<lambda>flag. flag = ''01'') \<circ> (\<lambda>i::nat. if i mod 100 = 0 then ''01'' else ''00''))
        = (\<lambda>i. i mod 100 = 0)"
    by (rule ext) simp
  have n: "(1000::nat) = 100 * 10" by simp
  have "length (filter (\<lambda>flag. flag = ''01'') (fst (sequential_flags 1000 0)))
      = length (filter (\<lambda>i. i mod 100 = 0) [0..<1000])"
    by (simp only: g filter_map length_map p)
  also have "\<dots> = length (filter (\<lambda>i. i mod 100 = 0) [0..<100 * 10])"
    by (simp only: n)
  also have "\<dots> = 10" by (rule count_every_100th)
  finally have i: "length (filter (\<lambda>flag. flag = ''01'') (fst (sequential_flags 1000 0))) = 10" .
  from a b c d e f g h i show ?thesis by blast
qed

theorem sampled_every_100th_generation_witness:
  "generateTraceFlags 0 = (''01'', 1) \<and> generateTraceFlags 1 = (''00'', 2)
   \<and> generateTraceFlags 99 = (''00'', 100) \<and> generateTraceFlags 100 = (''01'', 101)
   \<and> generateTraceFlags (- 100) = (''01'', - 99)
   \<and> generateTraceFlags (2 ^ 63 - 1) = (''00'', - (2 ^ 63))"
proof -
  have r: "generateTraceFlags r = (if r smod 100 = 0 then ''01'' else ''00'', r + 1)"
    if "- (2 ^ 63) \<le> r \<and> r < 2 ^ 63 - 1" for r
  proof -
    from sampled_every_100th_generation [of r] that
    have "fst (generateTraceFlags r) = (if r smod 100 = 0 then ''01'' else ''00'')"
      and "snd (generateTraceFlags r) = r + 1"
      by blast+
    then show ?thesis by (simp add: prod_eq_iff)
  qed
  have s: "generateTraceFlags (2 ^ 63 - 1) = (''00'', - (2 ^ 63))"
    by (simp add: generateTraceFlags_def wrap64_def smod_int_alt_def)
  from r [of 0] r [of 1] r [of 99] r [of 100] r [of "- 100"] s show ?thesis
    by (simp add: smod_int_alt_def)
qed

section \<open>Paging: claims\<close>

text \<open>
  C10, as stated, on the empty repository with offset 0 and limit -1: the limit is
  negative and offset + limit is below offset, yet the upper-bound guard on the offset
  returns the empty slice and the slice expression is not reached.
\<close>

theorem GetAll_negative_limit_counterexample:
  "GetAll NewTaskRepository '''' (- 1) 0 = Inr ([], None)"
  by (simp add: GetAll_def NewTaskRepository_def selected_ids_def)

text \<open>
  C10, amended. \<open>GetAll\<close> guards the offset against the upper bound only. In every
  repository state a call with a negative offset reaches the slice expression with
  out-of-range bounds and panics; so does a call with a negative limit whose offset is
  inside the selected id list. An offset at or past the length of the list returns the
  empty slice and no error, whatever the limit. Both kinds of input arrive from the query
  parameters: \<open>offset=-1\<close> panics on every repository, \<open>limit=-1\<close> on every
  repository that holds a task.
\<close>

theorem GetAll_out_of_range_bounds:
  "(offset < 0 \<longrightarrow> GetAll r sf limit offset = Inl ''slice bounds out of range'')
   \<and> (0 \<le> offset \<and> offset < int (length (selected_ids r sf)) \<and> offset < 2 ^ 63
        \<and> limit < 0 \<and> - (2 ^ 63) \<le> limit \<longrightarrow>
       GetAll r sf limit offset = Inl ''slice bounds out of range'')
   \<and> (int (length (selected_ids r sf)) \<le> offset \<longrightarrow> GetAll r sf limit offset = Inr ([], None))
   \<and> getTasks r [(''offset'', ''-1'')] = Inl ''slice bounds out of range''
   \<and> (allTasksIDs r \<noteq> [] \<longrightarrow> getTasks r [(''limit'', ''-1'')] = Inl ''slice bounds out of range'')"
proof -
  have a: "offset < 0 \<longrightarrow> GetAll r sf limit offset = Inl ''slice bounds out of range''"
    by (simp add: GetAll_negative_offset)
  have b: "0 \<le> offset \<and> offset < int (length (selected_ids r sf)) \<and> offset < 2 ^ 63
        \<and> limit < 0 \<and> - (2 ^ 63) \<le> limit \<longrightarrow>
       GetAll r sf limit offset = Inl ''slice bounds out of range''"
    by (simp add: GetAll_negative_limit)
  have c: "int (length (selected_ids r sf)) \<le> offset \<longrightarrow> GetAll r sf limit offset = Inr ([], None)"
    by (simp add: GetAll_def)
  have d: "getTasks r [(''offset'', ''-1'')] = Inl ''slice bounds out of range''"
    by (simp add: getTasks_def parseIntQueryParam_def query_Get_def Atoi_minus_1 GetAllTasks_def
        GetAll_negative_offset)
  have e: "getTasks r [(''limit'', ''-1'')] = Inl ''slice bounds out of range''"
    if ne: "allTasksIDs r \<noteq> []"
  proof -
    have sel: "selected_ids r '''' = allTasksIDs r" by (simp add: selected_ids_def)
    have g: "GetAll r '''' (- 1) 0 = Inl ''slice bounds out of range''"
      using ne by (intro GetAll_negative_limit) (simp_all add: sel)
    show ?thesis
      by (simp add: getTasks_def parseIntQueryParam_def query_Get_def Atoi_minus_1 GetAllTasks_def
          defaultOffset_def g)
  qed
  from a b c d e show ?thesis by blast
qed

theorem GetAll_out_of_range_bounds_witness:
  "GetAll NewTaskRepository '''' 10 (- 1) = Inl ''slice bounds out of range''
   \<and> GetAll (snd (Create NewTaskRepository \<lparr>ID = 0, Title = ''t'', Status = ''new''\<rparr>)) '''' (- 1) 0
       = Inl ''slice bounds out of range''
   \<and> GetAll NewTaskRepository '''' 10 0 = Inr ([], None)
   \<and> getTasks (snd (Create NewTaskRepository \<lparr>ID = 0, Title = ''t'', Status = ''new''\<rparr>))
         [(''limit'', ''-1'')] = Inl ''slice bounds out of range''"
proof -
  let ?r = "snd (Create NewTaskRepository \<lparr>ID = 0, Title = ''t'', Status = ''new''\<rparr>)"
  have e0: "selected_ids NewTaskRepository '''' = []"
    by (simp add: selected_ids_def NewTaskRepository_def)
  have h1: "(- 1 :: int) < 0" by simp
  have h2: "(0::int) \<le> 0 \<and> 0 < int (length (selected_ids ?r '''')) \<and> (0::int) < 2 ^ 63
        \<and> (- 1 :: int) < 0 \<and> - (2 ^ 63) \<le> (- 1 :: int)"
    by (simp add: one_task_repository)
  have h3: "int (length (selected_ids NewTaskRepository '''')) \<le> 0" by (simp add: e0)
  have h4: "allTasksIDs ?r \<noteq> []" by (simp add: one_task_repository)
  from GetAll_out_of_range_bounds [of "- 1" NewTaskRepository "''''" 10] h1
  have a: "GetAll NewTaskRepository '''' 10 (- 1) = Inl ''slice bounds out of range''" by blast
  from GetAll_out_of_range_bounds [of 0 ?r "''''" "- 1"] h2
  have b: "GetAll ?r '''' (- 1) 0 = Inl ''slice bounds out of range''" by blast
  from GetAll_out_of_range_bounds [of 0 NewTaskRepository "''''" 10] h3
  have c: "GetAll NewTaskRepository '''' 10 0 = Inr ([], None)" by blast
  from GetAll_out_of_range_bounds [of 0 ?r "''''" 10] h4
  have d: "getTasks ?r [(''limit'', ''-1'')] = Inl ''slice bounds out of range''" by blast
  from a b c d show ?thesis by blast
qed

end
